theory Spec2Isabelle
  imports Complex_Main "HOL-Library.Multiset"
begin

text \<open>
  A shallow embedding of the extraction-and-assembly pipeline of the SWF-to-MP4 converter:
  the timeout policy, the decompiler supervisor, the audio fallback and the content
  reconciler of \<^verbatim>\<open>src/tools/extractor.ts\<close>, and the frame-rate detector, the assembly
  driver and the coordinator of \<^verbatim>\<open>src/tools/converter.ts\<close>. What the program takes from
  outside (the file system, the two child processes, the clock) is a parameter of each
  function: a tree of directories, the events of a process in the order of their arrival.
  The definitions come first, the properties after them.
\<close>

section \<open>JavaScript values used by the pipeline\<close>

text \<open>
  A JavaScript \<^verbatim>\<open>number\<close> as far as the pipeline computes with it: \<open>NaN\<close>, or a
  finite value. Finite values are kept as exact rationals. The arithmetic of the timeout
  policy (a division by \<open>2^20\<close>, additions, halvings) is exact in IEEE doubles for every file
  size below \<open>2^51\<close> bytes, so the exact value is the value the program computes.
  An optional parameter that was not passed (\<^verbatim>\<open>undefined\<close>) is \<open>None\<close>.
\<close>

datatype jsnumber = NaN | Num rat

text \<open>Truthiness of \<^verbatim>\<open>number | undefined\<close>: \<^verbatim>\<open>undefined\<close>, \<open>NaN\<close> and \<open>0\<close> are falsy.\<close>

fun truthy :: "jsnumber option \<Rightarrow> bool" where
  "truthy None = False"
| "truthy (Some NaN) = False"
| "truthy (Some (Num r)) = (r \<noteq> 0)"

text \<open>\<^verbatim>\<open>x * 60000\<close> on numbers.\<close>

fun times60000 :: "jsnumber \<Rightarrow> jsnumber" where
  "times60000 NaN = NaN"
| "times60000 (Num r) = Num (r * 60000)"

text \<open>\<^verbatim>\<open>Math.round\<close>: the nearest integer, a tie going towards \<open>+\<infinity>\<close>.\<close>

definition math_round :: "rat \<Rightarrow> int" where
  "math_round x = \<lfloor>x + 1 / 2\<rfloor>"

text \<open>
  Where the program reads a number from text it gets an IEEE-754 double, and the digits
  of the text may be more than a double holds. A non-negative double is a finite value
  (kept as the rational it denotes) or \<open>+\<infinity>\<close>.
\<close>

datatype double = Finite rat | PosInfinity

text \<open>\<open>2^e\<close> for an integer exponent.\<close>

definition pow2 :: "int \<Rightarrow> rat" where
  "pow2 e = (if 0 \<le> e then 2 ^ nat e else 1 / 2 ^ nat (- e))"

text \<open>The number of binary digits of a positive integer.\<close>

function bitLength :: "int \<Rightarrow> int" where
  "bitLength n = (if n \<le> 0 then 0 else 1 + bitLength (n div 2))"
  by pat_completeness auto

termination
  by (relation "measure nat") auto

declare bitLength.simps [simp del]

text \<open>
  \<open>\<lfloor>log\<^sub>2 (a / b)\<rfloor>\<close> for positive \<open>a\<close> and \<open>b\<close>: the difference of the bit lengths, or one
  less.
\<close>

definition floorLog2 :: "int \<Rightarrow> int \<Rightarrow> int" where
  "floorLog2 a b =
     (let k = bitLength a - bitLength b
      in if pow2 k \<le> of_int a / of_int b then k else k - 1)"

text \<open>The nearest integer, a tie going to the even one.\<close>

definition roundHalfEven :: "rat \<Rightarrow> int" where
  "roundHalfEven x =
     (let f = \<lfloor>x\<rfloor>;
          r = x - of_int f
      in if r < 1 / 2 then f
         else if 1 / 2 < r then f + 1
         else if even f then f else f + 1)"

text \<open>
  The double nearest to \<open>a / b\<close> (for \<open>a \<ge> 0\<close> and \<open>b > 0\<close>), as the conversion of a decimal
  numeral in the runtime (V8) computes it: correctly rounded for every length of numeral, a
  tie going to the even significand. A double has a significand of 53 bits, so the unit in
  the last place of a value in \<open>[2^k, 2^(k+1))\<close> is \<open>2^(k - 52)\<close>; the smallest unit is that of
  the subnormal numbers, \<open>2^(-1074)\<close>. A value that rounds to \<open>2^1024\<close> or more is
  \<open>+\<infinity>\<close>; the rounded value is \<open>m * 2^e\<close>, which is \<open>2^1024\<close> or more exactly when the
  binary digits of \<open>m\<close> and the exponent \<open>e\<close> add up to more than 1024.
\<close>

definition nearestDouble :: "int \<Rightarrow> int \<Rightarrow> double" where
  "nearestDouble a b =
     (if a = 0 then Finite 0
      else
        let x = of_int a / of_int b;
            e = max (- 1074) (floorLog2 a b - 52);
            m = roundHalfEven (x / pow2 e)
        in if 1024 < bitLength m + e then PosInfinity else Finite (of_int m * pow2 e))"

section \<open>Timeout policy of \<^verbatim>\<open>extractSWF\<close> (extractor.ts, lines 308--338)\<close>

text \<open>
  What the pipeline throws or rejects with: a missing file or directory (from
  \<^verbatim>\<open>statSync\<close> or \<^verbatim>\<open>readdirSync\<close>); the decompiler's timeout, with the minutes of the message;
  ``JPEXS extraction failed completely and no frames were extracted''; the three rejections
  of the audio fallback and of the two conversion checks; ``No frames were extracted from the
  SWF file''; an unwritable output directory; an error of the encoder, passed on as it is.
\<close>

datatype error =
    ENOENT
  | TimedOut jsnumber
  | ExtractionFailedCompletely
  | FFmpegNotAvailable
  | FFmpegAudioFailed string
  | NoFramesExtracted
  | NoFrameFiles
  | NoFramePattern
  | CannotWrite string
  | FFmpegError string

text \<open>\<^verbatim>\<open>fileStats.size / (1024 * 1024)\<close>, the size in bytes being a natural number.\<close>

definition fileSizeMB :: "nat \<Rightarrow> rat" where
  "fileSizeMB bytes = of_nat bytes / (1024 * 1024)"

text \<open>
  The three assignments to \<^verbatim>\<open>calculatedTimeout\<close>: base 10 plus one minute per MB, then the
  two conditional increments.
\<close>

definition calculatedTimeout :: "rat \<Rightarrow> rat" where
  "calculatedTimeout mb =
     (let t0 = 10 + mb;
          t1 = (if mb > 20 then t0 + (mb - 20) * (1 / 2) else t0);
          t2 = (if mb > 50 then t1 + (mb - 50) * (1 / 2) else t1)
      in t2)"

text \<open>\<^verbatim>\<open>Math.max(10, Math.round(calculatedTimeout))\<close>.\<close>

definition autoTimeoutMinutes :: "rat \<Rightarrow> int" where
  "autoTimeoutMinutes mb = max 10 (math_round (calculatedTimeout mb))"

text \<open>
  The whole block: \<open>timeoutMinutes\<close> is the optional fourth argument, \<open>stat\<close> is what
  \<^verbatim>\<open>fs.statSync(swfFile)\<close> finds, the size in bytes or nothing (then \<^verbatim>\<open>statSync\<close>
  throws). The result is the pair \<open>(finalTimeoutMs, finalTimeoutMinutes)\<close>.
\<close>

definition resolveTimeout :: "jsnumber option \<Rightarrow> nat option \<Rightarrow> error + (jsnumber \<times> jsnumber)" where
  "resolveTimeout timeoutMinutes stat =
     (if truthy timeoutMinutes then
        Inr (times60000 (the timeoutMinutes), the timeoutMinutes)
      else
        (case stat of
           None \<Rightarrow> Inl ENOENT
         | Some bytes \<Rightarrow>
             (let finalTimeoutMinutes = Num (of_int (autoTimeoutMinutes (fileSizeMB bytes)))
              in Inr (times60000 finalTimeoutMinutes, finalTimeoutMinutes))))"

section \<open>Strings and paths\<close>

text \<open>
  Strings are lists of code units below 256 (Latin-1); file names and the encoder's
  diagnostic text are ASCII in practice.
\<close>

text \<open>\<^verbatim>\<open>String.prototype.toLowerCase\<close> on Latin-1: \<open>A..Z\<close> and the accented capitals.\<close>

definition toLowerCase_char :: "char \<Rightarrow> char" where
  "toLowerCase_char c =
     (let n = (of_char c :: nat)
      in if (65 \<le> n \<and> n \<le> 90) \<or> (192 \<le> n \<and> n \<le> 222 \<and> n \<noteq> 215)
         then char_of (n + 32) else c)"

definition toLowerCase :: "string \<Rightarrow> string" where
  "toLowerCase s = map toLowerCase_char s"

definition startsWith :: "string \<Rightarrow> string \<Rightarrow> bool" where
  "startsWith s p = (take (length p) s = p)"

definition endsWith :: "string \<Rightarrow> string \<Rightarrow> bool" where
  "endsWith s p = (length p \<le> length s \<and> drop (length s - length p) s = p)"

text \<open>\<^verbatim>\<open>String.prototype.includes\<close>: the needle starts at some position of the string.\<close>

fun str_includes :: "string \<Rightarrow> string \<Rightarrow> bool" where
  "str_includes [] p = (p = [])"
| "str_includes (c # cs) p = (startsWith (c # cs) p \<or> str_includes cs p)"

text \<open>The regular-expression class \<^verbatim>\<open>\d\<close>: the ten ASCII digits.\<close>

definition isDigit :: "char \<Rightarrow> bool" where
  "isDigit c = (let n = (of_char c :: nat) in 48 \<le> n \<and> n \<le> 57)"

text \<open>
  \<^verbatim>\<open>path.join(dir, name)\<close> for a directory path in normal form and one further segment:
  the two joined by the separator. (Node also normalises \<^verbatim>\<open>.\<close>, \<^verbatim>\<open>..\<close> and repeated
  separators; the pipeline joins a directory with \<^verbatim>\<open>frames\<close>, \<^verbatim>\<open>sounds\<close>, or an entry
  name returned by \<^verbatim>\<open>readdirSync\<close>, where there is nothing to normalise.)
\<close>

definition path_join :: "string \<Rightarrow> string \<Rightarrow> string" where
  "path_join dir name = dir @ ''/'' @ name"

text \<open>\<^verbatim>\<open>path.basename(p)\<close>: what follows the last separator.\<close>

definition path_basename :: "string \<Rightarrow> string" where
  "path_basename p = rev (takeWhile (\<lambda>c. c \<noteq> CHR ''/'') (rev p))"

text \<open>
  \<^verbatim>\<open>path.extname(p)\<close>: from the last dot of the base name to its end; empty when the base
  name has no dot, when its only dot is its first character, and for \<^verbatim>\<open>..\<close>.
\<close>

definition path_extname :: "string \<Rightarrow> string" where
  "path_extname p =
     (let b = path_basename p;
          afterDot = takeWhile (\<lambda>c. c \<noteq> CHR ''.'') (rev b);
          startDot = length b - length afterDot - 1
      in if CHR ''.'' \<notin> set b \<or> startDot = 0 \<or> b = ''..'' then [] else drop startDot b)"

text \<open>\<^verbatim>\<open>path.dirname(p)\<close>: what precedes the last separator; \<^verbatim>\<open>.\<close> when there is none.\<close>

definition path_dirname :: "string \<Rightarrow> string" where
  "path_dirname p =
     (let d = take (length p - length (path_basename p) - 1) p
      in if CHR ''/'' \<notin> set p then ''.'' else if d = [] then ''/'' else d)"

section \<open>The file system as the pipeline reads it\<close>

text \<open>
  The tree maps the path of a directory to its entries, in the order in which
  \<^verbatim>\<open>readdirSync\<close> returns them (the iteration order is a property of the tree, not of the
  call). A path that is not mapped does not exist. The paths the reconciler lists
  (\<^verbatim>\<open>outputDir\<close>, \<^verbatim>\<open>frames\<close>, \<^verbatim>\<open>sounds\<close>) are directories whenever they exist.
\<close>

type_synonym filesystem = "string \<Rightarrow> string list option"

text \<open>
  File-system calls take the tree and return it with their result, so that what a function
  does to the tree is part of what it returns; a call that throws returns the error.
\<close>

type_synonym 'a io = "filesystem \<Rightarrow> (error + 'a) \<times> filesystem"

definition io_return :: "'a \<Rightarrow> 'a io" where
  "io_return x = (\<lambda>fs. (Inr x, fs))"

definition io_bind :: "'a io \<Rightarrow> ('a \<Rightarrow> 'b io) \<Rightarrow> 'b io" where
  "io_bind m f = (\<lambda>fs. case m fs of (Inl e, fs') \<Rightarrow> (Inl e, fs') | (Inr x, fs') \<Rightarrow> f x fs')"

definition existsSync :: "string \<Rightarrow> bool io" where
  "existsSync p = (\<lambda>fs. (Inr (fs p \<noteq> None), fs))"

definition readdirSync :: "string \<Rightarrow> string list io" where
  "readdirSync p = (\<lambda>fs. (case fs p of None \<Rightarrow> Inl ENOENT | Some entries \<Rightarrow> Inr entries, fs))"

section \<open>Content Reconciler: \<^verbatim>\<open>analyzeExtractedContent\<close> (extractor.ts, lines 523--581)\<close>

record ExtractedContent =
  framesDir :: string
  frameFiles :: "string list"
  audioFiles :: "string list"
  frameCount :: nat

text \<open>\<^verbatim>\<open>file.toLowerCase().endsWith('.png')\<close>\<close>

definition isPngName :: "string \<Rightarrow> bool" where
  "isPngName file = endsWith (toLowerCase file) ''.png''"

text \<open>The audio filter: the lower-cased extension is one of three.\<close>

definition isAudioName :: "string \<Rightarrow> bool" where
  "isAudioName file =
     (let ext = toLowerCase (path_extname file)
      in ext = ''.mp3'' \<or> ext = ''.wav'' \<or> ext = ''.flv'')"

text \<open>
  \<^verbatim>\<open>s.match(/(\d+)/)\<close>: the leftmost, longest run of digits, or no match.
\<close>

definition matchDigits :: "string \<Rightarrow> string option" where
  "matchDigits s =
     (let r = dropWhile (\<lambda>c. \<not> isDigit c) s
      in if r = [] then None else Some (takeWhile isDigit r))"

text \<open>
  \<^verbatim>\<open>parseInt\<close> on a run of digits: its decimal value. The program has the nearest double,
  which is the decimal value itself as long as that is below \<open>2^53\<close>; the difference of two
  such numbers is exact as well. From \<open>2^53\<close> on the double may be another number (the two
  runs \<^verbatim>\<open>9007199254740993\<close> and \<^verbatim>\<open>9007199254740992\<close> give the same double), so whatever is
  stated below of the numeric order is stated of runs below \<open>2^53\<close>.
\<close>

definition digitValue :: "char \<Rightarrow> nat" where
  "digitValue c = of_char c - 48"

definition parseInt :: "string \<Rightarrow> nat" where
  "parseInt ds = foldl (\<lambda>acc c. 10 * acc + digitValue c) 0 ds"

text \<open>
  The comparator passed to \<^verbatim>\<open>sort\<close>. \<open>localeCompare\<close> is the runtime's
  \<^verbatim>\<open>String.prototype.localeCompare\<close>, a parameter of the model.
\<close>

definition frameCompare :: "(string \<Rightarrow> string \<Rightarrow> int) \<Rightarrow> string \<Rightarrow> string \<Rightarrow> int" where
  "frameCompare localeCompare a b =
     (case (matchDigits (path_basename a), matchDigits (path_basename b)) of
        (Some aMatch, Some bMatch) \<Rightarrow> int (parseInt aMatch) - int (parseInt bMatch)
      | _ \<Rightarrow> localeCompare a b)"

text \<open>
  \<^verbatim>\<open>Array.prototype.sort(cmp)\<close> is a stable sort: an element stays in front of a later
  one unless the comparator puts the later one strictly first. For a consistent comparator
  every stable sort returns the same list, the one stable insertion computes. For an
  inconsistent comparator the language leaves the order to the implementation.
\<close>

fun insert_by :: "('a \<Rightarrow> 'a \<Rightarrow> int) \<Rightarrow> 'a \<Rightarrow> 'a list \<Rightarrow> 'a list" where
  "insert_by cmp x [] = [x]"
| "insert_by cmp x (y # ys) = (if cmp x y \<le> 0 then x # y # ys else y # insert_by cmp x ys)"

definition array_sort :: "('a \<Rightarrow> 'a \<Rightarrow> int) \<Rightarrow> 'a list \<Rightarrow> 'a list" where
  "array_sort cmp xs = foldr (insert_by cmp) xs []"

definition analyzeExtractedContent ::
  "(string \<Rightarrow> string \<Rightarrow> int) \<Rightarrow> string \<Rightarrow> ExtractedContent io" where
  "analyzeExtractedContent localeCompare outputDir =
     (let framesDir = path_join outputDir ''frames'';
          soundsDir = path_join outputDir ''sounds''
      in
      io_bind (existsSync framesDir) (\<lambda>framesDirExists.
      io_bind (if framesDirExists
               then io_bind (readdirSync framesDir) (\<lambda>entries. io_return (filter isPngName entries))
               else io_return []) (\<lambda>framesInSubdir.
      io_bind (existsSync outputDir) (\<lambda>outputDirExists.
      io_bind (if outputDirExists
               then io_bind (readdirSync outputDir) (\<lambda>entries. io_return (filter isPngName entries))
               else io_return []) (\<lambda>framesInRoot.
      let (unsorted, actualFramesDir) =
            (if length framesInSubdir > length framesInRoot
             then (map (path_join framesDir) framesInSubdir, framesDir)
             else (map (path_join outputDir) framesInRoot, outputDir));
          sorted_frames = array_sort (frameCompare localeCompare) unsorted
      in
      io_bind (existsSync soundsDir) (\<lambda>soundsDirExists.
      io_bind (if soundsDirExists
               then io_bind (readdirSync soundsDir) (\<lambda>entries.
                      io_return (map (path_join soundsDir) (filter isAudioName entries)))
               else io_return []) (\<lambda>audio.
      io_return \<lparr>framesDir = actualFramesDir, frameFiles = sorted_frames,
                 audioFiles = audio, frameCount = length sorted_frames\<rparr>)))))))"

text \<open>The recognised frame files of a directory, as the reconciler counts them.\<close>

definition pngEntries :: "filesystem \<Rightarrow> string \<Rightarrow> string list" where
  "pngEntries fs dir = (case fs dir of None \<Rightarrow> [] | Some entries \<Rightarrow> filter isPngName entries)"

definition audioEntries :: "filesystem \<Rightarrow> string \<Rightarrow> string list" where
  "audioEntries fs dir = (case fs dir of None \<Rightarrow> [] | Some entries \<Rightarrow> filter isAudioName entries)"

text \<open>The number by which the comparator orders a path: the value of the first run of digits
  of its base name, when there is one.\<close>

definition frameNumber :: "string \<Rightarrow> nat option" where
  "frameNumber p = map_option parseInt (matchDigits (path_basename p))"

text \<open>
  A path carries a safe number when its base name has a run of digits and the first run
  denotes a number below \<open>2^53\<close> (at most \<^verbatim>\<open>Number.MAX_SAFE_INTEGER\<close>): the numbers that
  \<^verbatim>\<open>parseInt\<close> returns as they are written.
\<close>

definition hasSafeNumber :: "string \<Rightarrow> bool" where
  "hasSafeNumber p = (case frameNumber p of None \<Rightarrow> False | Some n \<Rightarrow> n < 2 ^ 53)"

text \<open>
  A comparator is consistent on a set of elements when it is total and transitive there
  (which is what \<^verbatim>\<open>sort\<close> requires of it).
\<close>

definition consistent_on :: "'a set \<Rightarrow> ('a \<Rightarrow> 'a \<Rightarrow> int) \<Rightarrow> bool" where
  "consistent_on S cmp \<longleftrightarrow>
     (\<forall>a\<in>S. \<forall>b\<in>S. cmp a b \<le> 0 \<or> cmp b a \<le> 0) \<and>
     (\<forall>a\<in>S. \<forall>b\<in>S. \<forall>c\<in>S. cmp a b \<le> 0 \<longrightarrow> cmp b c \<le> 0 \<longrightarrow> cmp a c \<le> 0)"

text \<open>Two calls of the reconciler in succession on the same output directory.\<close>

definition analyzeTwice ::
  "(string \<Rightarrow> string \<Rightarrow> int) \<Rightarrow> string \<Rightarrow> (ExtractedContent \<times> ExtractedContent) io" where
  "analyzeTwice localeCompare outputDir =
     io_bind (analyzeExtractedContent localeCompare outputDir) (\<lambda>first.
     io_bind (analyzeExtractedContent localeCompare outputDir) (\<lambda>second.
     io_return (first, second)))"

section \<open>Frame names, concrete trees and comparators used in the statements\<close>

text \<open>The decimal numeral of a natural number, as the decompiler names frames.\<close>

fun decimal :: "nat \<Rightarrow> string" where
  "decimal n = (if n < 10 then [char_of (48 + n)] else decimal (n div 10) @ [char_of (48 + n mod 10)])"

declare decimal.simps [simp del]

text \<open>The frame file \<^verbatim>\<open>i.png\<close>.\<close>

definition frameName :: "nat \<Rightarrow> string" where
  "frameName i = decimal i @ ''.png''"

text \<open>
  Lexicographic comparison by code units, the plain reading of ``lexicographic order''. On
  two paths that first differ where one has a digit or a lower-case letter and the other
  a different digit or lower-case letter, the collation of \<^verbatim>\<open>localeCompare\<close> has the same
  sign (digits before letters, letters in alphabetical order).
\<close>

fun codeUnitCompare :: "string \<Rightarrow> string \<Rightarrow> int" where
  "codeUnitCompare [] [] = 0"
| "codeUnitCompare [] (y # ys) = -1"
| "codeUnitCompare (x # xs) [] = 1"
| "codeUnitCompare (x # xs) (y # ys) =
     (if (of_char x :: nat) < of_char y then -1
      else if (of_char y :: nat) < of_char x then 1
      else codeUnitCompare xs ys)"

text \<open>
  A list of paths is in numeric order when, of any two paths that both carry a number, the
  earlier one carries the smaller or the same number.
\<close>

definition numbersAscending :: "string list \<Rightarrow> bool" where
  "numbersAscending ps =
     sorted_wrt (\<lambda>a b. case (frameNumber a, frameNumber b) of
                          (Some x, Some y) \<Rightarrow> x \<le> y | _ \<Rightarrow> True) ps"

text \<open>An output directory after a run: ten frames in the subdirectory, one image in the root.\<close>

definition sampleTree :: filesystem where
  "sampleTree = (\<lambda>p.
     if p = ''out'' then Some [''frames'', ''sounds'', ''cover.png'']
     else if p = ''out/frames'' then
       Some [''10.png'', ''9.png'', ''1.png'', ''2.png'', ''3.png'', ''4.png'', ''5.png'',
             ''6.png'', ''7.png'', ''8.png'']
     else if p = ''out/sounds'' then Some [''0.mp3'']
     else None)"

text \<open>A flat output directory whose frame names carry no digits.\<close>

definition plainTree :: filesystem where
  "plainTree = (\<lambda>p. if p = ''out'' then Some [''b.png'', ''c.png'', ''a.png''] else None)"

text \<open>A flat output directory in which some frame names carry digits and one does not.\<close>

definition mixedTree :: filesystem where
  "mixedTree = (\<lambda>p. if p = ''out'' then Some [''a2.png'', ''ab.png'', ''b1.png''] else None)"

section \<open>Decompiler Supervisor: \<^verbatim>\<open>extractSWFContent\<close> (extractor.ts, lines 128--204)\<close>

text \<open>
  What the spawned decompiler process does, as the events Node delivers: data on its
  standard output, data on its standard error, \<^verbatim>\<open>close\<close>, and \<^verbatim>\<open>error\<close> with the
  error's message.
\<close>

datatype process_event = Stdout string | Stderr string | Close | ProcessError string

text \<open>The three callbacks of \<^verbatim>\<open>ExtractorCallbacks\<close>.\<close>

datatype callback = OnError string | OnClose | OnStdout string

text \<open>The handler of standard error: only the two command-line errors are errors.\<close>

definition onStderr :: "string \<Rightarrow> callback" where
  "onStderr stderrData =
     (if str_includes stderrData ''Input SWF file does not exist'' \<or>
         str_includes stderrData ''Bad Commandline Arguments''
      then OnError stderrData else OnStdout stderrData)"

definition onProcessError :: "string \<Rightarrow> callback" where
  "onProcessError message =
     (if str_includes message ''ENOENT''
      then OnError ''Java Development Kit not found. Please install it.''
      else OnError (''Java process error: '' @ message))"

fun dispatch :: "process_event \<Rightarrow> callback" where
  "dispatch (Stdout d) = OnStdout d"
| "dispatch (Stderr d) = onStderr d"
| "dispatch Close = OnClose"
| "dispatch (ProcessError message) = onProcessError message"

text \<open>
  The callbacks that \<^verbatim>\<open>extractSWFContent\<close> makes, in order. When the source file does not
  exist it reports that and spawns nothing; otherwise it creates the output directories,
  spawns the decompiler and forwards the events of the process. (\<open>swfExists\<close> is
  \<^verbatim>\<open>fs.existsSync(options.swfFile)\<close>; the caller always passes options.)
\<close>

definition extractSWFContent :: "bool \<Rightarrow> string \<Rightarrow> process_event list \<Rightarrow> callback list" where
  "extractSWFContent swfExists swfFile events =
     (if \<not> swfExists then [OnError (''SWF file not found: '' @ swfFile)]
      else map dispatch events)"

section \<open>Audio Fallback Extractor: \<^verbatim>\<open>extractAudioWithFFmpeg\<close> (extractor.ts, lines 224--279)\<close>

text \<open>How a fluent-ffmpeg command ends: its \<^verbatim>\<open>end\<close> event, or \<^verbatim>\<open>error\<close> with a message.\<close>

datatype ffmpeg_event = End | Error string

text \<open>The command the fallback builds: input, \<^verbatim>\<open>noVideo()\<close>, the audio codec, the output.\<close>

record audio_command =
  audioInput :: string
  audioNoVideo :: bool
  audioCodecName :: string
  audioOutput :: string

text \<open>
  The result of the promise and the commands run. Without an initialised encoder the
  promise is rejected before anything runs. On \<^verbatim>\<open>end\<close> both branches of the size test
  resolve; on \<^verbatim>\<open>error\<close> the two ``no audio stream'' messages resolve and any other rejects.
\<close>

definition extractAudioWithFFmpeg ::
  "bool \<Rightarrow> ffmpeg_event \<Rightarrow> string \<Rightarrow> string \<Rightarrow> (error + unit) \<times> audio_command list" where
  "extractAudioWithFFmpeg ffmpegInitialized event swfFile outputDir =
     (if \<not> ffmpegInitialized then (Inl FFmpegNotAvailable, [])
      else
        let soundsDir = path_join outputDir ''sounds'';
            outputAudioPath = path_join soundsDir ''0.mp3'';
            command = \<lparr>audioInput = swfFile, audioNoVideo = True,
                       audioCodecName = ''copy'', audioOutput = outputAudioPath\<rparr>
        in case event of
             End \<Rightarrow> (Inr (), [command])
           | Error message \<Rightarrow>
               if str_includes message ''Output file is empty'' \<or>
                  str_includes message ''does not contain any stream''
               then (Inr (), [command])
               else (Inl (FFmpegAudioFailed message), [command]))"

section \<open>\<^verbatim>\<open>extractSWF\<close> (extractor.ts, lines 300--488)\<close>

text \<open>
  The promise around the decompiler and the flag \<^verbatim>\<open>jpexsSucceeded\<close>. \<open>settled\<close> is
  \<open>None\<close> while the promise is pending; a settled promise ignores later calls of
  \<^verbatim>\<open>resolve\<close> and \<^verbatim>\<open>reject\<close>.
\<close>

record supervision =
  settled :: "(error + unit) option"
  jpexsSucceeded :: bool

definition settle :: "error + unit \<Rightarrow> supervision \<Rightarrow> supervision" where
  "settle r s = (case settled s of None \<Rightarrow> s\<lparr>settled := Some r\<rparr> | Some _ \<Rightarrow> s)"

text \<open>
  The callbacks passed by \<^verbatim>\<open>extractSWF\<close>: \<^verbatim>\<open>onError\<close> clears the timer and resolves;
  \<^verbatim>\<open>onClose\<close> clears the timer, sets the flag and resolves; \<^verbatim>\<open>onStdout\<close> only logs.
\<close>

fun deliver :: "supervision \<Rightarrow> callback \<Rightarrow> supervision" where
  "deliver s (OnError err) = settle (Inr ()) s"
| "deliver s OnClose = settle (Inr ()) (s\<lparr>jpexsSucceeded := True\<rparr>)"
| "deliver s (OnStdout d) = s"

text \<open>
  The callbacks are those made before the timer runs out and, when the promise has been
  resolved, before the frames check reads the flag. If none of them has cleared the timer
  it fires, and the promise is rejected.
\<close>

definition superviseDecompiler :: "jsnumber \<Rightarrow> callback list \<Rightarrow> supervision" where
  "superviseDecompiler finalTimeoutMinutes callbacks =
     (let s = foldl deliver \<lparr>settled = None, jpexsSucceeded = False\<rparr> callbacks
      in settle (Inl (TimedOut finalTimeoutMinutes)) s)"

text \<open>\<^verbatim>\<open>/\.png$/i.test(f)\<close>\<close>

definition pngRegexTest :: "string \<Rightarrow> bool" where
  "pngRegexTest f = endsWith (toLowerCase f) ''.png''"

text \<open>Lines 459--466: are there frames in the subdirectory or in the root?\<close>

definition framesCheck :: "string \<Rightarrow> bool io" where
  "framesCheck outputDir =
     (let framesDir = path_join outputDir ''frames''
      in
      io_bind (existsSync framesDir) (\<lambda>framesDirExists.
      io_bind (if framesDirExists
               then io_bind (readdirSync framesDir) (\<lambda>entries.
                      io_return (length (filter pngRegexTest entries) > 0))
               else io_return False) (\<lambda>hasFramesInSubdir.
      io_bind (existsSync outputDir) (\<lambda>outputDirExists.
      io_bind (if outputDirExists
               then io_bind (readdirSync outputDir) (\<lambda>entries.
                      io_return (length (filter pngRegexTest entries) > 0))
               else io_return False) (\<lambda>hasFramesInRoot.
      io_return (hasFramesInSubdir \<or> hasFramesInRoot))))))"

text \<open>
  What one run of \<^verbatim>\<open>extractSWF\<close> meets: the size of the source file if it exists, the
  events of the decompiler process, whether the encoder was initialised when the module
  was loaded, how the audio command ends, and the tree as the final frames check finds it
  (after the supervisor, the decompiler and the encoder have written to it).
\<close>

record extraction_env =
  swfStat :: "nat option"
  decompilerEvents :: "process_event list"
  ffmpegInitialized :: bool
  audioEvent :: ffmpeg_event
  treeAfter :: filesystem

text \<open>The steps of a run, in order, and how it ends (\<open>thrown = None\<close>: the promise resolves).\<close>

datatype step =
    Decompiler "error + unit"
  | AudioFallback "error + unit" "audio_command list"
  | FramesCheck bool

record extraction_report =
  thrown :: "error option"
  steps :: "step list"

text \<open>
  The body of \<^verbatim>\<open>extractSWF\<close>. The \<^verbatim>\<open>catch\<close> at the end rethrows. The rejection of the
  fallback is caught and only logged. (The listing of the sounds directory before the
  fallback only feeds a log line. \<^verbatim>\<open>testFrames\<close> only adds \<^verbatim>\<open>-select\<close> to the decompiler's
  arguments.)
\<close>

definition extractSWF ::
  "extraction_env \<Rightarrow> string \<Rightarrow> string \<Rightarrow> jsnumber option \<Rightarrow> extraction_report" where
  "extractSWF env swfFile outputDir timeoutMinutes =
     (case resolveTimeout timeoutMinutes (swfStat env) of
        Inl e \<Rightarrow> \<lparr>thrown = Some e, steps = []\<rparr>
      | Inr (finalTimeoutMs, finalTimeoutMinutes) \<Rightarrow>
          let s = superviseDecompiler finalTimeoutMinutes
                    (extractSWFContent (swfStat env \<noteq> None) swfFile (decompilerEvents env))
          in
          (case settled s of
             Some (Inl e) \<Rightarrow> \<lparr>thrown = Some e, steps = [Decompiler (Inl e)]\<rparr>
           | _ \<Rightarrow>
               let (fallbackResult, commands) =
                     extractAudioWithFFmpeg (ffmpegInitialized env) (audioEvent env) swfFile outputDir
               in
               (case fst (framesCheck outputDir (treeAfter env)) of
                  Inl e \<Rightarrow>
                    \<lparr>thrown = Some e,
                     steps = [Decompiler (Inr ()), AudioFallback fallbackResult commands]\<rparr>
                | Inr hasFrames \<Rightarrow>
                    \<lparr>thrown = (if \<not> jpexsSucceeded s \<and> \<not> hasFrames
                               then Some ExtractionFailedCompletely else None),
                     steps = [Decompiler (Inr ()), AudioFallback fallbackResult commands,
                              FramesCheck hasFrames]\<rparr>)))"

text \<open>The notions the statements about a run use.\<close>

text \<open>The callbacks of a run, and the one that settles the promise: the first that is not
  progress output.\<close>

definition isProgress :: "callback \<Rightarrow> bool" where
  "isProgress cb = (case cb of OnStdout d \<Rightarrow> True | _ \<Rightarrow> False)"

definition runCallbacks :: "extraction_env \<Rightarrow> string \<Rightarrow> callback list" where
  "runCallbacks env swfFile =
     extractSWFContent (swfStat env \<noteq> None) swfFile (decompilerEvents env)"

definition firstSettling :: "callback list \<Rightarrow> callback option" where
  "firstSettling callbacks = find (\<lambda>cb. \<not> isProgress cb) callbacks"

text \<open>The decompiler timed out: nothing it did cleared the timer.\<close>

definition timedOut :: "extraction_env \<Rightarrow> string \<Rightarrow> bool" where
  "timedOut env swfFile = list_all isProgress (runCallbacks env swfFile)"

text \<open>The decompiler closed cleanly: the step ended with \<^verbatim>\<open>close\<close>, no error before it.\<close>

definition closedCleanly :: "extraction_env \<Rightarrow> string \<Rightarrow> bool" where
  "closedCleanly env swfFile = (firstSettling (runCallbacks env swfFile) = Some OnClose)"

text \<open>
  The step ended with a reported error, and the process was seen to close afterwards, before
  the frames check: \<^verbatim>\<open>onClose\<close> then sets \<^verbatim>\<open>jpexsSucceeded\<close> although the step had failed.
\<close>

definition closedAfterError :: "extraction_env \<Rightarrow> string \<Rightarrow> bool" where
  "closedAfterError env swfFile =
     (firstSettling (runCallbacks env swfFile) \<noteq> Some OnClose \<and>
      OnClose \<in> set (runCallbacks env swfFile))"

text \<open>Frame files exist on disk: in the subdirectory or in the root.\<close>

definition framesOnDisk :: "filesystem \<Rightarrow> string \<Rightarrow> bool" where
  "framesOnDisk fs outputDir =
     (pngEntries fs (path_join outputDir ''frames'') \<noteq> [] \<or> pngEntries fs outputDir \<noteq> [])"

text \<open>A run that times out although a frame is on disk.\<close>

definition timeoutTree :: filesystem where
  "timeoutTree = (\<lambda>p.
     if p = ''out'' then Some [''frames'', ''sounds'']
     else if p = ''out/frames'' then Some [''1.png'']
     else if p = ''out/sounds'' then Some []
     else None)"

definition timeoutEnv :: extraction_env where
  "timeoutEnv =
     \<lparr>swfStat = Some 2097152,
      decompilerEvents = [Stdout ''Exported frame 1/50''],
      ffmpegInitialized = True,
      audioEvent = End,
      treeAfter = timeoutTree\<rparr>"

text \<open>A run in which the decompiler reports a fatal error and nothing is written.\<close>

definition fatalEnv :: extraction_env where
  "fatalEnv =
     \<lparr>swfStat = Some 5242880,
      decompilerEvents = [Stderr ''Input SWF file does not exist''],
      ffmpegInitialized = True,
      audioEvent = Error ''Output file is empty'',
      treeAfter = (\<lambda>p. None)\<rparr>"

text \<open>A run in which the decompiler reports a fatal error after writing frames, and the
  audio command fails.\<close>

definition partialEnv :: extraction_env where
  "partialEnv =
     \<lparr>swfStat = Some 5242880,
      decompilerEvents = [Stdout ''Exported frame 1/10'', Stderr ''Bad Commandline Arguments''],
      ffmpegInitialized = True,
      audioEvent = Error ''Invalid data found when processing input'',
      treeAfter = sampleTree\<rparr>"

section \<open>Frame-Rate Detector: \<^verbatim>\<open>detectSWFFrameRate\<close> (converter.ts, lines 346--411)\<close>

text \<open>The regular-expression class \<^verbatim>\<open>\s\<close> on Latin-1: tab, line feed, vertical tab, form
  feed, carriage return, space and no-break space.\<close>

definition isSpace :: "char \<Rightarrow> bool" where
  "isSpace c = (let n = (of_char c :: nat) in (9 \<le> n \<and> n \<le> 13) \<or> n = 32 \<or> n = 160)"

text \<open>
  The regular expression \<^verbatim>\<open>/(\d+(?:\.\d+)?)\s+fps/\<close> (and the same with \<^verbatim>\<open>tbr\<close>) tried at
  the start of \<open>s\<close>: the digits, a fraction when a dot and a digit follow, white space, the
  unit. The result is the captured group.
\<close>

definition matchRateAt :: "string \<Rightarrow> string \<Rightarrow> string option" where
  "matchRateAt unit s =
     (let intPart = takeWhile isDigit s;
          afterInt = dropWhile isDigit s;
          fraction = (case afterInt of
                        [] \<Rightarrow> []
                      | c # cs \<Rightarrow> if c = CHR ''.'' then takeWhile isDigit cs else []);
          captured = (if fraction = [] then intPart else intPart @ ''.'' @ fraction);
          afterGroup = drop (length captured) s;
          afterSpace = dropWhile isSpace afterGroup
      in if intPart \<noteq> [] \<and> takeWhile isSpace afterGroup \<noteq> [] \<and> startsWith afterSpace unit
         then Some captured else None)"

text \<open>\<^verbatim>\<open>stderrData.match(...)\<close>: the match at the leftmost position that has one.\<close>

fun matchRate :: "string \<Rightarrow> string \<Rightarrow> string option" where
  "matchRate unit [] = None"
| "matchRate unit (c # cs) =
     (case matchRateAt unit (c # cs) of
        Some captured \<Rightarrow> Some captured
      | None \<Rightarrow> matchRate unit cs)"

text \<open>The value of a run of digits read in base ten.\<close>

definition decimalValue :: "string \<Rightarrow> int" where
  "decimalValue ds = foldl (\<lambda>acc c. 10 * acc + int (digitValue c)) 0 ds"

text \<open>
  \<^verbatim>\<open>parseFloat\<close> on a captured group, which is digits or digits, a dot and digits: the
  double nearest to its decimal value. With \<open>k\<close> digits after the dot the decimal value is
  the number that all the digits spell, divided by \<open>10^k\<close>.
\<close>

definition parseFloat :: "string \<Rightarrow> double" where
  "parseFloat captured =
     (let intPart = takeWhile isDigit captured;
          fraction = drop (length intPart + 1) captured
      in nearestDouble (decimalValue (intPart @ fraction)) (10 ^ length fraction))"

text \<open>
  The block that both searches share: with a match, the parsed value is returned rounded
  when it lies in \<open>(0, 120]\<close>; otherwise the code falls through. (\<^verbatim>\<open>Infinity <= 120\<close> is
  false.)
\<close>

definition acceptRate :: "string option \<Rightarrow> int option" where
  "acceptRate m =
     (case m of
        None \<Rightarrow> None
      | Some captured \<Rightarrow>
          (case parseFloat captured of
             PosInfinity \<Rightarrow> None
           | Finite fps \<Rightarrow> if fps > 0 \<and> fps \<le> 120 then Some (math_round fps) else None))"

text \<open>
  How the analysis run ends, that is, which handler settles the promise first: \<^verbatim>\<open>close\<close>
  (with the diagnostic text captured from standard error), \<^verbatim>\<open>error\<close>, or the 30-second
  timer (which kills the process).
\<close>

datatype probe_event = ProbeClose string | ProbeError string | ProbeTimeout

text \<open>\<open>ffmpegPath\<close> is \<^verbatim>\<open>platformStatus.ffmpeg\<close>: the encoder's path, if there is one.\<close>

definition detectSWFFrameRate :: "string option \<Rightarrow> probe_event \<Rightarrow> int" where
  "detectSWFFrameRate ffmpegPath event =
     (case ffmpegPath of
        None \<Rightarrow> 30
      | Some path \<Rightarrow>
          (case event of
             ProbeTimeout \<Rightarrow> 30
           | ProbeError message \<Rightarrow> 30
           | ProbeClose stderrData \<Rightarrow>
               (case acceptRate (matchRate ''fps'' stderrData) of
                  Some rate \<Rightarrow> rate
                | None \<Rightarrow>
                    (case acceptRate (matchRate ''tbr'' stderrData) of
                       Some rate \<Rightarrow> rate
                     | None \<Rightarrow> 30))))"

text \<open>
  What the analysis process does while the detector waits: its signals in the order in
  which the event loop runs their handlers, each with the time of that in milliseconds after
  the timer was set. A chunk of standard error, \<^verbatim>\<open>close\<close>, or \<^verbatim>\<open>error\<close> with its message.
\<close>

datatype probe_signal = StderrData string | CloseEvent | ErrorEvent string

text \<open>
  The handlers that \<^verbatim>\<open>detectSWFFrameRate\<close> installs, run over the signals. The timer is
  set to 30000 ms and its callback calls \<^verbatim>\<open>kill()\<close> and resolves; it runs once that time
  has come, before the handler of any signal that is delivered at 30000 ms or later, and
  also when the process stays silent for good. The \<^verbatim>\<open>data\<close> handler appends the chunk to
  \<open>stderrData\<close>. The \<^verbatim>\<open>close\<close> and the \<^verbatim>\<open>error\<close> handler clear the timer and resolve. A
  promise keeps its first resolution, so the run is decided by the first of these. The
  result is that event, and whether \<^verbatim>\<open>kill()\<close> was called.
\<close>

fun watchProbe :: "string \<Rightarrow> (nat \<times> probe_signal) list \<Rightarrow> probe_event \<times> bool" where
  "watchProbe stderrData [] = (ProbeTimeout, True)"
| "watchProbe stderrData ((t, signal) # rest) =
     (if 30000 \<le> t then (ProbeTimeout, True)
      else
        (case signal of
           StderrData d \<Rightarrow> watchProbe (stderrData @ d) rest
         | CloseEvent \<Rightarrow> (ProbeClose stderrData, False)
         | ErrorEvent message \<Rightarrow> (ProbeError message, False)))"

text \<open>
  The detector on the signals of the process: the number the promise resolves to, and
  whether the process was killed. Without an encoder no process is started.
\<close>

definition detectSWFFrameRateTimed ::
  "string option \<Rightarrow> (nat \<times> probe_signal) list \<Rightarrow> int \<times> bool" where
  "detectSWFFrameRateTimed ffmpegPath signals =
     (case ffmpegPath of
        None \<Rightarrow> (30, False)
      | Some path \<Rightarrow>
          (let (event, killed) = watchProbe [] signals
           in (detectSWFFrameRate (Some path) event, killed)))"

text \<open>Chunks of standard error with their times, as signals.\<close>

definition stderrChunks :: "(nat \<times> string) list \<Rightarrow> (nat \<times> probe_signal) list" where
  "stderrChunks chunks = map (\<lambda>(t, d). (t, StderrData d)) chunks"

text \<open>All of the chunks come before the timer is due.\<close>

definition inTime :: "(nat \<times> string) list \<Rightarrow> bool" where
  "inTime chunks = list_all (\<lambda>(t, d). t < 30000) chunks"

text \<open>
  What the regular expression means, independently of how it is matched: \<open>g\<close> is a
  numeral, and \<open>s\<close> is \<open>g\<close>, then white space, then the unit, then anything.
\<close>

definition isNumeral :: "string \<Rightarrow> bool" where
  "isNumeral g =
     (let intPart = takeWhile isDigit g
      in intPart \<noteq> [] \<and>
         (case dropWhile isDigit g of
            [] \<Rightarrow> True
          | c # fraction \<Rightarrow> c = CHR ''.'' \<and> fraction \<noteq> [] \<and> list_all isDigit fraction))"

definition rateMarkerAt :: "string \<Rightarrow> string \<Rightarrow> string \<Rightarrow> bool" where
  "rateMarkerAt unit s g \<longleftrightarrow>
     isNumeral g \<and> (\<exists>ws rest. ws \<noteq> [] \<and> list_all isSpace ws \<and> s = g @ ws @ unit @ rest)"

text \<open>The first marker of a text: a marker at some position, with none at an earlier one.\<close>

definition firstMarker :: "string \<Rightarrow> string \<Rightarrow> string \<Rightarrow> bool" where
  "firstMarker unit txt g \<longleftrightarrow>
     (\<exists>pre post. txt = pre @ post \<and> rateMarkerAt unit post g \<and>
        (\<forall>pre' post' g'. txt = pre' @ post' \<and> length pre' < length pre \<longrightarrow>
           \<not> rateMarkerAt unit post' g'))"

definition noMarker :: "string \<Rightarrow> string \<Rightarrow> bool" where
  "noMarker unit txt \<longleftrightarrow> (\<forall>pre post g. txt = pre @ post \<longrightarrow> \<not> rateMarkerAt unit post g)"

text \<open>
  A marker whose value is accepted: the double that \<^verbatim>\<open>parseFloat\<close> makes of it is
  greater than 0 and at most 120.
\<close>

definition inRange :: "string \<Rightarrow> bool" where
  "inRange g = (case parseFloat g of PosInfinity \<Rightarrow> False | Finite v \<Rightarrow> 0 < v \<and> v \<le> 120)"

section \<open>Assembly Driver: \<^verbatim>\<open>convertFramesToMP4\<close> (converter.ts, lines 149--286)\<close>

text \<open>\<^verbatim>\<open>path.basename(p, ext)\<close>: the base name without the extension, unless the base name is
  the extension.\<close>

definition path_basename_ext :: "string \<Rightarrow> string \<Rightarrow> string" where
  "path_basename_ext p ext =
     (let b = path_basename p
      in if ext \<noteq> [] \<and> endsWith b ext \<and> b \<noteq> ext then take (length b - length ext) b else b)"

text \<open>\<^verbatim>\<open>/^(\d+)$/\<close> and \<^verbatim>\<open>/^(.+?)(\d+)$/\<close> on a base name; the dot matches everything but a
  line terminator.\<close>

definition numberMatch :: "string \<Rightarrow> bool" where
  "numberMatch baseName = (baseName \<noteq> [] \<and> list_all isDigit baseName)"

definition isLineTerminator :: "char \<Rightarrow> bool" where
  "isLineTerminator c = (let n = (of_char c :: nat) in n = 10 \<or> n = 13)"

definition prefixMatch :: "string \<Rightarrow> bool" where
  "prefixMatch baseName =
     (let trailing = length (takeWhile isDigit (rev baseName))
      in trailing \<ge> 1 \<and> length baseName \<ge> 2 \<and>
         list_all (\<lambda>c. \<not> isLineTerminator c) (take (length baseName - trailing) baseName))"

text \<open>\<^verbatim>\<open>createFramePattern\<close>: all three branches build the same sequential pattern.\<close>

definition createFramePattern :: "string list \<Rightarrow> (string \<times> nat) option" where
  "createFramePattern files =
     (case files of
        [] \<Rightarrow> None
      | firstFrame # others \<Rightarrow>
          (let frameDir = path_dirname firstFrame;
               baseName = path_basename_ext firstFrame (path_extname firstFrame);
               ext = path_extname firstFrame
           in if numberMatch baseName
              then Some (path_join frameDir (''%d'' @ ext), length files)
              else if prefixMatch baseName \<and> length files > 1
              then Some (path_join frameDir (''%d'' @ ext), length files)
              else Some (path_join frameDir (''%d'' @ ext), length files)))"

text \<open>The encoder command the driver builds.\<close>

record assembly_command =
  inputs :: "string list"
  inputFramerate :: jsnumber
  videoFilters :: "string list"
  videoCodec :: string
  outputOptions :: "string list"
  audioCodec :: "string option"
  outputFile :: string

text \<open>
  The promise of \<^verbatim>\<open>convertFramesToMP4\<close> and the command it runs, if it gets that far.
  \<open>writable\<close> says whether the probe of the output directory (create it if missing, write
  and delete a test file) goes through; \<open>event\<close> is how the encoder ends.
\<close>

definition convertFramesToMP4 ::
  "bool \<Rightarrow> ffmpeg_event \<Rightarrow> ExtractedContent \<Rightarrow> string \<Rightarrow> jsnumber \<Rightarrow>
   (error + unit) \<times> assembly_command option" where
  "convertFramesToMP4 writable event content outputPath framerate =
     (if length (frameFiles content) = 0 then (Inl NoFrameFiles, None)
      else
        (case createFramePattern (frameFiles content) of
           None \<Rightarrow> (Inl NoFramePattern, None)
         | Some (pattern, n) \<Rightarrow>
             if \<not> writable then (Inl (CannotWrite (path_dirname outputPath)), None)
             else
               let command = \<lparr>inputs = [pattern], inputFramerate = framerate,
                               videoFilters = [''pad=ceil(iw/2)*2:ceil(ih/2)*2''],
                               videoCodec = ''libx264'',
                               outputOptions = [''-pix_fmt'', ''yuv420p'', ''-crf'', ''23''],
                               audioCodec = None, outputFile = outputPath\<rparr>;
                   command = (if length (audioFiles content) > 0
                              then command\<lparr>inputs := inputs command @ [audioFiles content ! 0],
                                           audioCodec := Some ''aac''\<rparr>
                              else command)
               in (case event of
                     End \<Rightarrow> (Inr (), Some command)
                   | Error message \<Rightarrow> (Inl (FFmpegError message), Some command))))"

section \<open>Pipeline Coordinator: \<^verbatim>\<open>convertSWF\<close> (converter.ts, lines 95--144)\<close>

record ConversionOptions =
  framerate :: jsnumber
  keepExtracted :: bool

text \<open>What one conversion meets, beyond what the extraction meets.\<close>

record conversion_env =
  ffmpegPath :: "string option"
  probeEvent :: probe_event
  extraction :: extraction_env
  outputWritable :: bool
  assemblyEvent :: ffmpeg_event

record conversion_report =
  failure :: "error option"
  assembly :: "assembly_command option"
  cleanedUp :: bool

text \<open>
  The body of \<^verbatim>\<open>convertSWF\<close>. \<^verbatim>\<open>extractSWF\<close> is called without a frame cap and without a
  timeout override. The reconciler reads the tree that the extraction's frames check read.
  The \<^verbatim>\<open>finally\<close> block removes the temporary directory unless it is to be kept.
\<close>

definition convertSWF ::
  "(string \<Rightarrow> string \<Rightarrow> int) \<Rightarrow> conversion_env \<Rightarrow> string \<Rightarrow> string \<Rightarrow> ConversionOptions \<Rightarrow>
   conversion_report" where
  "convertSWF localeCompare env swfFile outputMP4 options =
     (let tempDir = path_join (path_dirname outputMP4)
                      (''.temp-'' @ path_basename_ext swfFile ''.swf'');
          detectedFrameRate = detectSWFFrameRate (ffmpegPath env) (probeEvent env);
          actualFrameRate = (if framerate options \<noteq> Num 30 then framerate options
                             else Num (of_int detectedFrameRate));
          tree = treeAfter (extraction env);
          (failed, command) =
            (case thrown (extractSWF (extraction env) swfFile tempDir None) of
               Some e \<Rightarrow> (Some e, None)
             | None \<Rightarrow>
                 (case fst (analyzeExtractedContent localeCompare tempDir tree) of
                    Inl e \<Rightarrow> (Some e, None)
                  | Inr content \<Rightarrow>
                      if frameCount content = 0 then (Some NoFramesExtracted, None)
                      else
                        (case convertFramesToMP4 (outputWritable env) (assemblyEvent env)
                                content outputMP4 actualFrameRate of
                           (Inl e, cmd) \<Rightarrow> (Some e, cmd)
                         | (Inr u, cmd) \<Rightarrow> (None, cmd))))
      in \<lparr>failure = failed, assembly = command,
          cleanedUp = (\<not> keepExtracted options \<and> tree tempDir \<noteq> None)\<rparr>)"

text \<open>A conversion of a small file: the probe reports 15 fps, extraction leaves two frames
  and one audio file in the temporary directory.\<close>

definition tempTree :: filesystem where
  "tempTree = (\<lambda>p.
     if p = ''videos/.temp-a'' then Some [''frames'', ''sounds'']
     else if p = ''videos/.temp-a/frames'' then Some [''2.png'', ''1.png'']
     else if p = ''videos/.temp-a/sounds'' then Some [''0.mp3'']
     else None)"

definition probeText :: string where
  "probeText = ''Stream #0:0: Video: flv1, yuv420p, 640x480, 15 fps, 15 tbr, 1k tbn''"

definition conversionEnv :: conversion_env where
  "conversionEnv =
     \<lparr>ffmpegPath = Some ''ffmpeg'',
      probeEvent = ProbeClose probeText,
      extraction = \<lparr>swfStat = Some 2097152,
                    decompilerEvents = [Stdout ''Exported frame 1/2'', Close],
                    ffmpegInitialized = True,
                    audioEvent = End,
                    treeAfter = tempTree\<rparr>,
      outputWritable = True,
      assemblyEvent = End\<rparr>"

text \<open>The manifest of that temporary directory, and the command assembled from it.\<close>

definition sampleManifest :: ExtractedContent where
  "sampleManifest = \<lparr>framesDir = ''videos/.temp-a/frames'',
        frameFiles = [''videos/.temp-a/frames/1.png'', ''videos/.temp-a/frames/2.png''],
        audioFiles = [''videos/.temp-a/sounds/0.mp3''], frameCount = 2\<rparr>"

definition sampleCommand :: "jsnumber \<Rightarrow> assembly_command" where
  "sampleCommand rate = \<lparr>inputs = [''videos/.temp-a/frames/%d.png'', ''videos/.temp-a/sounds/0.mp3''],
      inputFramerate = rate,
      videoFilters = [''pad=ceil(iw/2)*2:ceil(ih/2)*2''],
      videoCodec = ''libx264'',
      outputOptions = [''-pix_fmt'', ''yuv420p'', ''-crf'', ''23''],
      audioCodec = Some ''aac'', outputFile = ''videos/a.mp4''\<rparr>"

section \<open>Properties of the timeout policy\<close>

lemma calculatedTimeout_max:
  "calculatedTimeout S = 10 + S + (1 / 2) * max 0 (S - 20) + (1 / 2) * max 0 (S - 50)"
  by (simp add: calculatedTimeout_def Let_def max_def)

lemma calculatedTimeout_mono: "S \<le> T \<Longrightarrow> calculatedTimeout S \<le> calculatedTimeout T"
proof -
  assume le: "S \<le> T"
  then have "max 0 (S - 20) \<le> max 0 (T - 20)" and "max 0 (S - 50) \<le> max 0 (T - 50)"
    by (simp_all add: max_def)
  with le show ?thesis
    unfolding calculatedTimeout_max by (intro add_mono mult_left_mono) simp_all
qed

lemma math_round_mono: "x \<le> y \<Longrightarrow> math_round x \<le> math_round y"
  by (simp add: math_round_def floor_mono)

lemma math_round_eq_round: "math_round x = round x"
  by (simp add: math_round_def round_def)

lemma autoTimeoutMinutes_mono: "S \<le> T \<Longrightarrow> autoTimeoutMinutes S \<le> autoTimeoutMinutes T"
  unfolding autoTimeoutMinutes_def
  using math_round_mono [OF calculatedTimeout_mono] by (meson max.mono order_refl)

lemma autoTimeoutMinutes_unbounded: "\<exists>bytes. B < autoTimeoutMinutes (fileSizeMB bytes)"
proof
  let ?n = "nat (max 0 B) * (1024 * 1024)"
  have mb: "fileSizeMB ?n = of_nat (nat (max 0 B))"
    by (simp add: fileSizeMB_def)
  have "of_int (max 0 B) + 10 \<le> calculatedTimeout (fileSizeMB ?n)"
    unfolding mb calculatedTimeout_max by (simp add: max_def)
  then have "max 0 B + 10 \<le> math_round (calculatedTimeout (fileSizeMB ?n))"
    unfolding math_round_def by (simp add: le_floor_iff)
  then show "B < autoTimeoutMinutes (fileSizeMB ?n)"
    unfolding autoTimeoutMinutes_def by linarith
qed

text \<open>
  C2. Without an override the timeout in minutes is
  \<open>max 10 (round (10 + S + 0.5 * max 0 (S - 20) + 0.5 * max 0 (S - 50)))\<close> for the size \<open>S\<close>
  in MB of the source file; it is monotonically non-decreasing in \<open>S\<close>, at least 10, and
  exceeds every bound for a large enough file.
\<close>

theorem timeout_formula_monotone_floor_unbounded:
  "resolveTimeout None (Some bytes) =
     Inr (Num (of_int (autoTimeoutMinutes (fileSizeMB bytes)) * 60000),
          Num (of_int (autoTimeoutMinutes (fileSizeMB bytes))))
   \<and> autoTimeoutMinutes S =
       max 10 (round (10 + S + (1 / 2) * max 0 (S - 20) + (1 / 2) * max 0 (S - 50)))
   \<and> (\<forall>T. S \<le> T \<longrightarrow> autoTimeoutMinutes S \<le> autoTimeoutMinutes T)
   \<and> 10 \<le> autoTimeoutMinutes S
   \<and> (\<forall>B. \<exists>bytes'. B < autoTimeoutMinutes (fileSizeMB bytes'))"
proof (intro conjI allI impI)
  show "resolveTimeout None (Some bytes) =
     Inr (Num (of_int (autoTimeoutMinutes (fileSizeMB bytes)) * 60000),
          Num (of_int (autoTimeoutMinutes (fileSizeMB bytes))))"
    by (simp add: resolveTimeout_def Let_def)
  show "autoTimeoutMinutes S =
       max 10 (round (10 + S + (1 / 2) * max 0 (S - 20) + (1 / 2) * max 0 (S - 50)))"
    by (simp only: autoTimeoutMinutes_def math_round_eq_round calculatedTimeout_max)
  show "autoTimeoutMinutes S \<le> autoTimeoutMinutes T" if "S \<le> T" for T
    using that by (rule autoTimeoutMinutes_mono)
  show "10 \<le> autoTimeoutMinutes S"
    by (simp add: autoTimeoutMinutes_def)
  show "\<exists>bytes'. B < autoTimeoutMinutes (fileSizeMB bytes')" for B
    by (rule autoTimeoutMinutes_unbounded)
qed

theorem timeout_formula_witness:
  "fileSizeMB 31457280 \<le> fileSizeMB 62914560
   \<and> autoTimeoutMinutes (fileSizeMB 31457280) = 45
   \<and> autoTimeoutMinutes (fileSizeMB 62914560) = 95
   \<and> autoTimeoutMinutes (fileSizeMB 31457280) \<le> autoTimeoutMinutes (fileSizeMB 62914560)"
proof -
  have le: "fileSizeMB 31457280 \<le> fileSizeMB 62914560"
    by (simp add: fileSizeMB_def)
  have "math_round 45 = 45" "math_round 95 = 95"
    unfolding math_round_def by (rule floor_unique; simp)+
  then have a: "autoTimeoutMinutes (fileSizeMB 31457280) = 45"
    and b: "autoTimeoutMinutes (fileSizeMB 62914560) = 95"
    by (simp_all add: autoTimeoutMinutes_def calculatedTimeout_def fileSizeMB_def Let_def)
  from timeout_formula_monotone_floor_unbounded [of 0 "fileSizeMB 31457280"]
  have "fileSizeMB 31457280 \<le> fileSizeMB 62914560 \<longrightarrow>
        autoTimeoutMinutes (fileSizeMB 31457280) \<le> autoTimeoutMinutes (fileSizeMB 62914560)"
    by blast
  with le a b show ?thesis by blast
qed

text \<open>
  C10. A falsy override (\<^verbatim>\<open>undefined\<close>, \<open>0\<close>, \<open>NaN\<close>) behaves exactly like no override:
  the timeout is computed from the file size (and is at least 10 minutes, never 0). Only a
  nonzero number is taken over verbatim, as minutes and, times 60000, as milliseconds.
\<close>

theorem zero_override_is_no_override:
  "(\<not> truthy t \<longrightarrow> resolveTimeout t stat = resolveTimeout None stat)
   \<and> resolveTimeout (Some (Num 0)) stat = resolveTimeout None stat
   \<and> resolveTimeout (Some (Num 0)) (Some bytes) =
       Inr (Num (of_int (autoTimeoutMinutes (fileSizeMB bytes)) * 60000),
            Num (of_int (autoTimeoutMinutes (fileSizeMB bytes))))
   \<and> 10 \<le> autoTimeoutMinutes (fileSizeMB bytes)
   \<and> (r \<noteq> 0 \<longrightarrow> resolveTimeout (Some (Num r)) stat = Inr (Num (r * 60000), Num r))"
proof (intro conjI impI)
  show "resolveTimeout t stat = resolveTimeout None stat" if "\<not> truthy t"
    using that by (simp add: resolveTimeout_def)
  show "resolveTimeout (Some (Num 0)) stat = resolveTimeout None stat"
    by (simp add: resolveTimeout_def)
  show "resolveTimeout (Some (Num 0)) (Some bytes) =
       Inr (Num (of_int (autoTimeoutMinutes (fileSizeMB bytes)) * 60000),
            Num (of_int (autoTimeoutMinutes (fileSizeMB bytes))))"
    by (simp add: resolveTimeout_def Let_def)
  show "10 \<le> autoTimeoutMinutes (fileSizeMB bytes)"
    by (simp add: autoTimeoutMinutes_def)
  show "resolveTimeout (Some (Num r)) stat = Inr (Num (r * 60000), Num r)" if "r \<noteq> 0"
    using that by (simp add: resolveTimeout_def)
qed

theorem zero_override_witness:
  "\<not> truthy (Some NaN)
   \<and> resolveTimeout (Some NaN) (Some 2097152) = resolveTimeout None (Some 2097152)
   \<and> resolveTimeout (Some (Num 0)) (Some 2097152) = Inr (Num 720000, Num 12)
   \<and> (3::rat) \<noteq> 0
   \<and> resolveTimeout (Some (Num 3)) (Some 2097152) = Inr (Num 180000, Num 3)"
proof -
  have "math_round 12 = 12"
    unfolding math_round_def by (rule floor_unique; simp)
  then have auto12: "autoTimeoutMinutes (fileSizeMB 2097152) = 12"
    by (simp add: autoTimeoutMinutes_def calculatedTimeout_def fileSizeMB_def Let_def)
  have f: "\<not> truthy (Some NaN)" and nz: "(3::rat) \<noteq> 0"
    by simp_all
  note inst = zero_override_is_no_override [of "Some NaN" "Some 2097152" 2097152 3]
  from inst f have 1: "resolveTimeout (Some NaN) (Some 2097152) = resolveTimeout None (Some 2097152)"
    by blast
  from inst have "resolveTimeout (Some (Num 0)) (Some 2097152) =
       Inr (Num (of_int (autoTimeoutMinutes (fileSizeMB 2097152)) * 60000),
            Num (of_int (autoTimeoutMinutes (fileSizeMB 2097152))))"
    by blast
  then have 2: "resolveTimeout (Some (Num 0)) (Some 2097152) = Inr (Num 720000, Num 12)"
    by (simp add: auto12)
  from inst nz have 3: "resolveTimeout (Some (Num 3)) (Some 2097152) = Inr (Num 180000, Num 3)"
    by simp
  from f 1 2 nz 3 show ?thesis by blast
qed

section \<open>Properties of the Content Reconciler\<close>

lemma mset_insert_by: "mset (insert_by cmp x xs) = add_mset x (mset xs)"
  by (induction xs) auto

lemma mset_array_sort: "mset (array_sort cmp xs) = mset xs"
  unfolding array_sort_def by (induction xs) (auto simp: mset_insert_by)

lemma set_insert_by: "set (insert_by cmp x xs) = insert x (set xs)"
  by (induction xs) auto

lemma set_array_sort: "set (array_sort cmp xs) = set xs"
  unfolding array_sort_def by (induction xs) (auto simp: set_insert_by)

lemma length_array_sort: "length (array_sort cmp xs) = length xs"
  using mset_array_sort [of cmp xs] by (metis size_mset)

lemma sorted_insert_by:
  assumes "consistent_on S cmp" "x \<in> S" "set xs \<subseteq> S" "sorted_wrt (\<lambda>a b. cmp a b \<le> 0) xs"
  shows "sorted_wrt (\<lambda>a b. cmp a b \<le> 0) (insert_by cmp x xs)"
  using assms(3,4)
proof (induction xs)
  case Nil
  then show ?case by simp
next
  case (Cons y ys)
  show ?case
  proof (cases "cmp x y \<le> 0")
    case True
    have "cmp x z \<le> 0" if "z \<in> set ys" for z
      using that True Cons.prems assms(1,2) unfolding consistent_on_def
      by (metis insert_subset list.simps(15) sorted_wrt.simps(2) subsetD)
    with True Cons.prems show ?thesis by simp
  next
    case False
    then have "cmp y x \<le> 0"
      using assms(1,2) Cons.prems(1) unfolding consistent_on_def by auto
    with False Cons show ?thesis
      by (auto simp: set_insert_by)
  qed
qed

lemma sorted_array_sort:
  assumes "consistent_on S cmp" "set xs \<subseteq> S"
  shows "sorted_wrt (\<lambda>a b. cmp a b \<le> 0) (array_sort cmp xs)"
  using assms(2)
proof (induction xs)
  case Nil
  then show ?case by (simp add: array_sort_def)
next
  case (Cons x xs)
  then have "sorted_wrt (\<lambda>a b. cmp a b \<le> 0) (array_sort cmp xs)" by simp
  moreover have "set (array_sort cmp xs) \<subseteq> S" using Cons.prems by (simp add: set_array_sort)
  ultimately have "sorted_wrt (\<lambda>a b. cmp a b \<le> 0) (insert_by cmp x (array_sort cmp xs))"
    using sorted_insert_by [OF assms(1)] Cons.prems by simp
  then show ?case by (simp add: array_sort_def)
qed

text \<open>The reconciler in closed form: it never throws and returns the tree as it found it.\<close>

lemma analyze_eq:
  "analyzeExtractedContent lc out fs =
     (Inr \<lparr>framesDir = (if length (pngEntries fs (path_join out ''frames'')) > length (pngEntries fs out)
                        then path_join out ''frames'' else out),
           frameFiles = array_sort (frameCompare lc)
             (if length (pngEntries fs (path_join out ''frames'')) > length (pngEntries fs out)
              then map (path_join (path_join out ''frames'')) (pngEntries fs (path_join out ''frames''))
              else map (path_join out) (pngEntries fs out)),
           audioFiles = map (path_join (path_join out ''sounds'')) (audioEntries fs (path_join out ''sounds'')),
           frameCount = length (array_sort (frameCompare lc)
             (if length (pngEntries fs (path_join out ''frames'')) > length (pngEntries fs out)
              then map (path_join (path_join out ''frames'')) (pngEntries fs (path_join out ''frames''))
              else map (path_join out) (pngEntries fs out)))\<rparr>, fs)"
  unfolding analyzeExtractedContent_def Let_def io_bind_def io_return_def existsSync_def readdirSync_def
    pngEntries_def audioEntries_def
  by (cases "fs (path_join out ''frames'')"; cases "fs out"; cases "fs (path_join out ''sounds'')"; simp)

lemma frames_dir_differs: "path_join out ''frames'' \<noteq> out"
proof
  assume "path_join out ''frames'' = out"
  then have "length (path_join out ''frames'') = length out" by simp
  then show False by (simp add: path_join_def)
qed

text \<open>
  C3. The reconciler always returns a manifest, and its frames directory is one of the two
  candidates, which are different paths: the \<^verbatim>\<open>frames\<close> subdirectory exactly when it holds
  strictly more recognised frame files than the output root, the root otherwise (also on a
  tie, and when both are empty). The frame list is the chosen directory's frame files.
\<close>

theorem layout_chosen_by_strict_majority:
  "\<exists>m. analyzeExtractedContent lc out fs = (Inr m, fs)
     \<and> (framesDir m = path_join out ''frames'' \<or> framesDir m = out)
     \<and> path_join out ''frames'' \<noteq> out
     \<and> (framesDir m = path_join out ''frames'' \<longleftrightarrow>
          length (pngEntries fs out) < length (pngEntries fs (path_join out ''frames'')))
     \<and> (framesDir m = out \<longleftrightarrow>
          length (pngEntries fs (path_join out ''frames'')) \<le> length (pngEntries fs out))
     \<and> mset (frameFiles m) = mset (map (path_join (framesDir m)) (pngEntries fs (framesDir m)))
     \<and> frameCount m = length (pngEntries fs (framesDir m))"
  using frames_dir_differs [of out]
  by (simp add: analyze_eq mset_array_sort length_array_sort not_less)

text \<open>
  C9. Two calls in succession return the same manifest twice (same frames directory, same
  ordered frame list, same audio list, same frame count) and leave the tree as it was.
\<close>

theorem reconciler_idempotent:
  "\<exists>m. analyzeTwice lc out fs = (Inr (m, m), fs)
     \<and> analyzeExtractedContent lc out fs = (Inr m, fs)"
  by (simp add: analyzeTwice_def io_bind_def io_return_def analyze_eq)

subsection \<open>Ordering of the frame list\<close>

lemma isDigit_char_of: "d < 10 \<Longrightarrow> isDigit (char_of (48 + (d::nat)))"
  by (simp add: isDigit_def Let_def)

lemma digitValue_char_of: "d < 10 \<Longrightarrow> digitValue (char_of (48 + (d::nat))) = d"
  by (simp add: digitValue_def)

lemma decimal_digits: "c \<in> set (decimal n) \<Longrightarrow> isDigit c"
proof (induction n arbitrary: c rule: decimal.induct)
  case (1 n)
  show ?case
  proof (cases "n < 10")
    case True
    with "1.prems" show ?thesis by (simp add: decimal.simps [of n] isDigit_char_of)
  next
    case False
    with "1.prems" "1.IH" show ?thesis
      by (auto simp: decimal.simps [of n] isDigit_char_of)
  qed
qed

lemma decimal_nonempty: "decimal n \<noteq> []"
  by (subst decimal.simps) simp

lemma parseInt_snoc: "parseInt (ds @ [c]) = 10 * parseInt ds + digitValue c"
  by (simp add: parseInt_def)

lemma parseInt_decimal: "parseInt (decimal n) = n"
proof (induction n rule: decimal.induct)
  case (1 n)
  show ?case
  proof (cases "n < 10")
    case True
    then show ?thesis by (simp add: decimal.simps [of n] parseInt_def digitValue_char_of)
  next
    case False
    with "1.IH" show ?thesis
      by (simp add: decimal.simps [of n] parseInt_snoc digitValue_char_of)
  qed
qed

lemma isDigit_not_sep: "isDigit c \<Longrightarrow> c \<noteq> CHR ''/'' \<and> c \<noteq> CHR ''.''"
  by (auto simp: isDigit_def Let_def)

lemma not_digit_dot: "\<not> isDigit CHR ''.''"
  by (simp add: isDigit_def)

lemma matchDigits_frameName: "matchDigits (frameName i) = Some (decimal i)"
proof -
  obtain d ds where ds: "decimal i = d # ds"
    using decimal_nonempty [of i] by (cases "decimal i") auto
  have dig: "\<forall>c\<in>set (decimal i). isDigit c" using decimal_digits by blast
  then have "isDigit d" using ds by simp
  then have "dropWhile (\<lambda>c. \<not> isDigit c) (frameName i) = frameName i"
    by (simp add: frameName_def ds)
  moreover have "takeWhile isDigit (frameName i) = decimal i"
    unfolding frameName_def using dig by (simp add: takeWhile_append2 not_digit_dot)
  moreover have "frameName i \<noteq> []" by (simp add: frameName_def)
  ultimately show ?thesis by (simp add: matchDigits_def Let_def)
qed

lemma path_basename_join: "CHR ''/'' \<notin> set f \<Longrightarrow> path_basename (path_join d f) = f"
proof -
  assume a: "CHR ''/'' \<notin> set f"
  then have "takeWhile (\<lambda>c. c \<noteq> CHR ''/'') (rev f @ CHR ''/'' # rev d) = rev f"
    by (subst takeWhile_append2) auto
  then show ?thesis by (simp add: path_basename_def path_join_def)
qed

lemma frameName_no_sep: "CHR ''/'' \<notin> set (frameName i)"
  using decimal_digits [of "CHR ''/''" i] isDigit_not_sep [of "CHR ''/''"]
  by (auto simp: frameName_def)

lemma frameNumber_frameName: "frameNumber (path_join d (frameName i)) = Some i"
  by (simp add: frameNumber_def path_basename_join frameName_no_sep matchDigits_frameName parseInt_decimal)

lemma frameCompare_numbered:
  "frameNumber a = Some x \<Longrightarrow> frameNumber b = Some y \<Longrightarrow> frameCompare lc a b = int x - int y"
  by (auto simp: frameNumber_def frameCompare_def split: option.splits)

lemma frameCompare_unnumbered:
  "frameNumber a = None \<or> frameNumber b = None \<Longrightarrow> frameCompare lc a b = lc a b"
  by (auto simp: frameNumber_def frameCompare_def split: option.splits)

lemma sorted_numbered:
  assumes "\<forall>p\<in>set xs. frameNumber p \<noteq> None"
  shows "sorted (map (the \<circ> frameNumber) (array_sort (frameCompare lc) xs))"
proof -
  have le: "frameCompare lc a b \<le> 0 \<longleftrightarrow> the (frameNumber a) \<le> the (frameNumber b)"
    if "a \<in> set xs" "b \<in> set xs" for a b
  proof -
    from that assms obtain x y where "frameNumber a = Some x" "frameNumber b = Some y"
      by (meson not_Some_eq)
    then show ?thesis by (simp add: frameCompare_numbered)
  qed
  have "consistent_on (set xs) (frameCompare lc)"
    unfolding consistent_on_def
  proof (intro conjI ballI impI)
    fix a b assume "a \<in> set xs" "b \<in> set xs"
    then show "frameCompare lc a b \<le> 0 \<or> frameCompare lc b a \<le> 0"
      using le [of a b] le [of b a] by linarith
  next
    fix a b c assume "a \<in> set xs" "b \<in> set xs" "c \<in> set xs"
      and "frameCompare lc a b \<le> 0" "frameCompare lc b c \<le> 0"
    then show "frameCompare lc a c \<le> 0"
      using le [of a b] le [of b c] le [of a c] by linarith
  qed
  then have "sorted_wrt (\<lambda>a b. frameCompare lc a b \<le> 0) (array_sort (frameCompare lc) xs)"
    by (rule sorted_array_sort) simp
  then have "sorted_wrt (\<lambda>a b. the (frameNumber a) \<le> the (frameNumber b)) (array_sort (frameCompare lc) xs)"
    by (rule sorted_wrt_mono_rel [rotated]) (simp add: le set_array_sort)
  then show ?thesis
    by (simp add: sorted_wrt_map)
qed

lemma consistent_on_total:
  "consistent_on S cmp \<Longrightarrow> a \<in> S \<Longrightarrow> b \<in> S \<Longrightarrow> cmp a b \<le> 0 \<or> cmp b a \<le> 0"
  unfolding consistent_on_def by (elim conjE) (drule bspec, assumption, drule bspec, assumption)

lemma consistent_on_trans:
  "consistent_on S cmp \<Longrightarrow> a \<in> S \<Longrightarrow> b \<in> S \<Longrightarrow> c \<in> S \<Longrightarrow>
   cmp a b \<le> 0 \<Longrightarrow> cmp b c \<le> 0 \<Longrightarrow> cmp a c \<le> 0"
  unfolding consistent_on_def by (elim conjE) fast

lemma sorted_unnumbered:
  assumes "\<forall>p\<in>set xs. frameNumber p = None" "consistent_on (set xs) lc"
  shows "sorted_wrt (\<lambda>a b. lc a b \<le> 0) (array_sort (frameCompare lc) xs)"
proof -
  have eq: "frameCompare lc a b = lc a b" if "a \<in> set xs" for a b
    using that assms(1) by (simp add: frameCompare_unnumbered)
  have "consistent_on (set xs) (frameCompare lc)"
    unfolding consistent_on_def
  proof (intro conjI ballI impI)
    fix a b assume ab: "a \<in> set xs" "b \<in> set xs"
    from consistent_on_total [OF assms(2) ab]
    show "frameCompare lc a b \<le> 0 \<or> frameCompare lc b a \<le> 0"
      by (simp only: eq [OF ab(1)] eq [OF ab(2)])
  next
    fix a b c assume abc: "a \<in> set xs" "b \<in> set xs" "c \<in> set xs"
      and "frameCompare lc a b \<le> 0" "frameCompare lc b c \<le> 0"
    then have "lc a b \<le> 0" "lc b c \<le> 0"
      by (simp_all only: eq [OF abc(1)] eq [OF abc(2)])
    from consistent_on_trans [OF assms(2) abc this]
    show "frameCompare lc a c \<le> 0"
      by (simp only: eq [OF abc(1)])
  qed
  then have "sorted_wrt (\<lambda>a b. frameCompare lc a b \<le> 0) (array_sort (frameCompare lc) xs)"
    by (rule sorted_array_sort) simp
  then show ?thesis
  proof (rule sorted_wrt_mono_rel [rotated])
    fix a b assume "a \<in> set (array_sort (frameCompare lc) xs)" and le: "frameCompare lc a b \<le> 0"
    then have "a \<in> set xs" by (simp only: set_array_sort)
    from le show "lc a b \<le> 0" by (simp only: eq [OF \<open>a \<in> set xs\<close>])
  qed
qed

lemma sequential_names_sorted:
  assumes "mset entries = mset (map frameName [1..<Suc N])"
  shows "array_sort (frameCompare lc) (map (path_join d) entries) = map (\<lambda>i. path_join d (frameName i)) [1..<Suc N]"
proof -
  let ?res = "array_sort (frameCompare lc) (map (path_join d) entries)"
  let ?num = "the \<circ> frameNumber"
  have "set entries = set (map frameName [1..<Suc N])"
    using assms by (rule mset_eq_setD)
  then have set_entries: "set entries = frameName ` {1..<Suc N}"
    by (simp only: set_map set_upt)
  have num: "the (frameNumber (path_join d (frameName i))) = i" for i
    by (simp add: frameNumber_frameName)
  have allnum: "\<forall>p\<in>set (map (path_join d) entries). frameNumber p \<noteq> None"
    using set_entries by (auto simp: frameNumber_frameName)
  have sorted: "sorted (map ?num ?res)"
    using allnum by (rule sorted_numbered)
  have "mset (map ?num ?res) = image_mset ?num (mset (map (path_join d) entries))"
    by (simp add: mset_array_sort)
  also have "\<dots> = image_mset (\<lambda>e. ?num (path_join d e)) (mset entries)"
    by (simp add: multiset.map_comp comp_def)
  also have "\<dots> = image_mset (\<lambda>e. ?num (path_join d e)) (mset (map frameName [1..<Suc N]))"
    by (simp only: assms)
  also have "\<dots> = mset (map (\<lambda>i. ?num (path_join d (frameName i))) [1..<Suc N])"
    by (simp add: multiset.map_comp comp_def)
  also have "\<dots> = mset [1..<Suc N]"
    by (simp only: comp_def num map_ident)
  finally have "mset (map ?num ?res) = mset [1..<Suc N]" .
  with sorted have "sort [1..<Suc N] = map ?num ?res"
    by (intro properties_for_sort)
  moreover have "sort [1..<Suc N] = [1..<Suc N]"
    by (rule sorted_sort_id) (rule sorted_upt)
  ultimately have nums: "map ?num ?res = [1..<Suc N]"
    by (simp only:)
  have restore: "path_join d (frameName (?num p)) = p" if "p \<in> set ?res" for p
  proof -
    from that have "p \<in> path_join d ` set entries"
      by (simp add: set_array_sort)
    then have "p \<in> path_join d ` frameName ` {1..<Suc N}"
      by (simp only: set_entries)
    then obtain i where "p = path_join d (frameName i)"
      by (elim imageE) simp
    then show ?thesis by (simp add: num)
  qed
  have "map (\<lambda>i. path_join d (frameName i)) (map ?num ?res) =
        map (\<lambda>p. path_join d (frameName (?num p))) ?res"
    by (simp only: map_map comp_def)
  also have "\<dots> = ?res"
    by (rule map_idI) (rule restore)
  finally show ?thesis by (simp only: nums)
qed

subsection \<open>Concrete runs of the reconciler\<close>

lemma sample_run:
  "analyzeExtractedContent codeUnitCompare ''out'' sampleTree =
     (Inr \<lparr>framesDir = ''out/frames'',
           frameFiles = [''out/frames/1.png'', ''out/frames/2.png'', ''out/frames/3.png'',
                         ''out/frames/4.png'', ''out/frames/5.png'', ''out/frames/6.png'',
                         ''out/frames/7.png'', ''out/frames/8.png'', ''out/frames/9.png'',
                         ''out/frames/10.png''],
           audioFiles = [''out/sounds/0.mp3''], frameCount = 10\<rparr>, sampleTree)"
proof -
  have "fst (analyzeExtractedContent codeUnitCompare ''out'' sampleTree) =
     Inr \<lparr>framesDir = ''out/frames'',
           frameFiles = [''out/frames/1.png'', ''out/frames/2.png'', ''out/frames/3.png'',
                         ''out/frames/4.png'', ''out/frames/5.png'', ''out/frames/6.png'',
                         ''out/frames/7.png'', ''out/frames/8.png'', ''out/frames/9.png'',
                         ''out/frames/10.png''],
           audioFiles = [''out/sounds/0.mp3''], frameCount = 10\<rparr>"
    by code_simp
  moreover have "snd (analyzeExtractedContent codeUnitCompare ''out'' sampleTree) = sampleTree"
    by (simp add: analyze_eq)
  ultimately show ?thesis by (simp add: prod_eq_iff)
qed

lemma plain_run:
  "analyzeExtractedContent codeUnitCompare ''out'' plainTree =
     (Inr \<lparr>framesDir = ''out'', frameFiles = [''out/a.png'', ''out/b.png'', ''out/c.png''],
           audioFiles = [], frameCount = 3\<rparr>, plainTree)"
proof -
  have "fst (analyzeExtractedContent codeUnitCompare ''out'' plainTree) =
     Inr \<lparr>framesDir = ''out'', frameFiles = [''out/a.png'', ''out/b.png'', ''out/c.png''],
           audioFiles = [], frameCount = 3\<rparr>"
    by code_simp
  moreover have "snd (analyzeExtractedContent codeUnitCompare ''out'' plainTree) = plainTree"
    by (simp add: analyze_eq)
  ultimately show ?thesis by (simp add: prod_eq_iff)
qed

lemma mixed_run:
  "analyzeExtractedContent codeUnitCompare ''out'' mixedTree =
     (Inr \<lparr>framesDir = ''out'', frameFiles = [''out/a2.png'', ''out/ab.png'', ''out/b1.png''],
           audioFiles = [], frameCount = 3\<rparr>, mixedTree)"
proof -
  have "fst (analyzeExtractedContent codeUnitCompare ''out'' mixedTree) =
     Inr \<lparr>framesDir = ''out'', frameFiles = [''out/a2.png'', ''out/ab.png'', ''out/b1.png''],
           audioFiles = [], frameCount = 3\<rparr>"
    by code_simp
  moreover have "snd (analyzeExtractedContent codeUnitCompare ''out'' mixedTree) = mixedTree"
    by (simp add: analyze_eq)
  ultimately show ?thesis by (simp add: prod_eq_iff)
qed

text \<open>The strict majority at work, and the tie of two empty candidates.\<close>

theorem layout_witness:
  "(\<exists>m. analyzeExtractedContent codeUnitCompare ''out'' sampleTree = (Inr m, sampleTree)
        \<and> framesDir m = ''out/frames'' \<and> frameCount m = 10)
   \<and> (\<exists>m. analyzeExtractedContent codeUnitCompare ''out'' (\<lambda>p. None) = (Inr m, (\<lambda>p. None))
        \<and> framesDir m = ''out'' \<and> frameCount m = 0)"
proof -
  have a: "length (pngEntries sampleTree ''out'') = 1"
    and b: "length (pngEntries sampleTree ''out/frames'') = 10"
    by code_simp+
  have c: "pngEntries (\<lambda>p. None) d = []" for d
    by (simp add: pngEntries_def)
  from layout_chosen_by_strict_majority [of codeUnitCompare "''out''" sampleTree]
  obtain m where "analyzeExtractedContent codeUnitCompare ''out'' sampleTree = (Inr m, sampleTree)"
    and "framesDir m = path_join ''out'' ''frames'' \<longleftrightarrow>
          length (pngEntries sampleTree ''out'') < length (pngEntries sampleTree (path_join ''out'' ''frames''))"
    and "frameCount m = length (pngEntries sampleTree (framesDir m))"
    by blast
  then have 1: "\<exists>m. analyzeExtractedContent codeUnitCompare ''out'' sampleTree = (Inr m, sampleTree)
        \<and> framesDir m = ''out/frames'' \<and> frameCount m = 10"
    using a b by (simp add: path_join_def)
  from layout_chosen_by_strict_majority [of codeUnitCompare "''out''" "\<lambda>p. None"]
  obtain m' where "analyzeExtractedContent codeUnitCompare ''out'' (\<lambda>p. None) = (Inr m', (\<lambda>p. None))"
    and "framesDir m' = ''out'' \<longleftrightarrow>
          length (pngEntries (\<lambda>p. None) (path_join ''out'' ''frames'')) \<le> length (pngEntries (\<lambda>p. None) ''out'')"
    and "frameCount m' = length (pngEntries (\<lambda>p. None) (framesDir m'))"
    by blast
  then have 2: "\<exists>m. analyzeExtractedContent codeUnitCompare ''out'' (\<lambda>p. None) = (Inr m, (\<lambda>p. None))
        \<and> framesDir m = ''out'' \<and> frameCount m = 0"
    using c by simp
  from 1 2 show ?thesis by blast
qed

theorem reconciler_idempotent_witness:
  "analyzeTwice codeUnitCompare ''out'' plainTree =
     (Inr (\<lparr>framesDir = ''out'', frameFiles = [''out/a.png'', ''out/b.png'', ''out/c.png''],
             audioFiles = [], frameCount = 3\<rparr>,
           \<lparr>framesDir = ''out'', frameFiles = [''out/a.png'', ''out/b.png'', ''out/c.png''],
             audioFiles = [], frameCount = 3\<rparr>), plainTree)"
  using reconciler_idempotent [of codeUnitCompare "''out''" plainTree]
  by (auto simp: plain_run)

lemma analyze_frames:
  assumes "analyzeExtractedContent lc out fs = (Inr m, fs')"
  shows "frameFiles m = array_sort (frameCompare lc)
           (map (path_join (framesDir m)) (pngEntries fs (framesDir m)))"
  using assms unfolding analyze_eq by (auto split: if_splits)

lemma hasSafeNumber_numbered: "hasSafeNumber p \<Longrightarrow> frameNumber p \<noteq> None"
  by (simp add: hasSafeNumber_def split: option.splits)

text \<open>
  C4 (as the code has it). The reconciled frame list is a rearrangement of the chosen
  directory's frame files. When every file of the list carries a run of digits, and the
  first run denotes a number below \<open>2^53\<close>, the list is sorted ascending by the number of the
  first run; when none carries digits, it is sorted by \<^verbatim>\<open>localeCompare\<close> of the paths (for
  a \<^verbatim>\<open>localeCompare\<close> that is total and transitive on them). In particular the names
  \<^verbatim>\<open>1.png\<close>, ..., \<^verbatim>\<open>N.png\<close> with \<open>N\<close> below \<open>2^53\<close>, listed in any order, come out as
  \<^verbatim>\<open>1.png\<close>, \<^verbatim>\<open>2.png\<close>, ..., \<^verbatim>\<open>N.png\<close>.
\<close>

theorem frames_sorted_when_names_uniform:
  assumes "analyzeExtractedContent lc out fs = (Inr m, fs')"
  shows "mset (frameFiles m) = mset (map (path_join (framesDir m)) (pngEntries fs (framesDir m)))
    \<and> ((\<forall>p\<in>set (frameFiles m). hasSafeNumber p) \<longrightarrow>
         sorted (map (the \<circ> frameNumber) (frameFiles m)))
    \<and> ((\<forall>p\<in>set (frameFiles m). frameNumber p = None) \<and> consistent_on (set (frameFiles m)) lc \<longrightarrow>
         sorted_wrt (\<lambda>a b. lc a b \<le> 0) (frameFiles m))
    \<and> (\<forall>N. N < 2 ^ 53 \<and> mset (pngEntries fs (framesDir m)) = mset (map frameName [1..<Suc N]) \<longrightarrow>
         frameFiles m = map (\<lambda>i. path_join (framesDir m) (frameName i)) [1..<Suc N])"
proof -
  let ?xs = "map (path_join (framesDir m)) (pngEntries fs (framesDir m))"
  have ff: "frameFiles m = array_sort (frameCompare lc) ?xs"
    using assms by (rule analyze_frames)
  have set_eq: "set (frameFiles m) = set ?xs"
    by (simp only: ff set_array_sort)
  have 1: "mset (frameFiles m) = mset ?xs"
    by (simp only: ff mset_array_sort)
  have 2: "sorted (map (the \<circ> frameNumber) (frameFiles m))"
    if "\<forall>p\<in>set (frameFiles m). hasSafeNumber p"
  proof -
    from that have "\<forall>p\<in>set ?xs. frameNumber p \<noteq> None"
      unfolding set_eq by (blast dest: hasSafeNumber_numbered)
    then show ?thesis unfolding ff by (rule sorted_numbered)
  qed
  have 3: "sorted_wrt (\<lambda>a b. lc a b \<le> 0) (frameFiles m)"
    if "(\<forall>p\<in>set (frameFiles m). frameNumber p = None) \<and> consistent_on (set (frameFiles m)) lc"
  proof -
    from that have "\<forall>p\<in>set ?xs. frameNumber p = None" and "consistent_on (set ?xs) lc"
      unfolding set_eq by blast+
    then show ?thesis unfolding ff by (rule sorted_unnumbered)
  qed
  have 4: "frameFiles m = map (\<lambda>i. path_join (framesDir m) (frameName i)) [1..<Suc N]"
    if "mset (pngEntries fs (framesDir m)) = mset (map frameName [1..<Suc N])" for N
    unfolding ff using that by (rule sequential_names_sorted)
  from 1 2 3 4 show ?thesis by blast
qed

theorem frames_sorted_witness:
  "map frameNumber
     [''out/frames/1.png'', ''out/frames/2.png'', ''out/frames/3.png'',
      ''out/frames/4.png'', ''out/frames/5.png'', ''out/frames/6.png'',
      ''out/frames/7.png'', ''out/frames/8.png'', ''out/frames/9.png'',
      ''out/frames/10.png''] =
     [Some 1, Some 2, Some 3, Some 4, Some 5, Some 6, Some 7, Some 8, Some 9, Some 10]
   \<and> list_all hasSafeNumber
        [''out/frames/1.png'', ''out/frames/2.png'', ''out/frames/3.png'',
         ''out/frames/4.png'', ''out/frames/5.png'', ''out/frames/6.png'',
         ''out/frames/7.png'', ''out/frames/8.png'', ''out/frames/9.png'',
         ''out/frames/10.png'']
   \<and> sorted (map (the \<circ> frameNumber)
        [''out/frames/1.png'', ''out/frames/2.png'', ''out/frames/3.png'',
         ''out/frames/4.png'', ''out/frames/5.png'', ''out/frames/6.png'',
         ''out/frames/7.png'', ''out/frames/8.png'', ''out/frames/9.png'',
         ''out/frames/10.png''])
   \<and> (10 :: nat) < 2 ^ 53
   \<and> mset (pngEntries sampleTree ''out/frames'') = mset (map frameName [1..<Suc 10])
   \<and> [''out/frames/1.png'', ''out/frames/2.png'', ''out/frames/3.png'',
       ''out/frames/4.png'', ''out/frames/5.png'', ''out/frames/6.png'',
       ''out/frames/7.png'', ''out/frames/8.png'', ''out/frames/9.png'',
       ''out/frames/10.png''] = map (\<lambda>i. path_join ''out/frames'' (frameName i)) [1..<Suc 10]
   \<and> map frameNumber [''out/a.png'', ''out/b.png'', ''out/c.png''] = [None, None, None]
   \<and> consistent_on (set [''out/a.png'', ''out/b.png'', ''out/c.png'']) codeUnitCompare
   \<and> sorted_wrt (\<lambda>a b. codeUnitCompare a b \<le> 0) [''out/a.png'', ''out/b.png'', ''out/c.png'']"
proof -
  have n1: "map frameNumber
     [''out/frames/1.png'', ''out/frames/2.png'', ''out/frames/3.png'',
      ''out/frames/4.png'', ''out/frames/5.png'', ''out/frames/6.png'',
      ''out/frames/7.png'', ''out/frames/8.png'', ''out/frames/9.png'',
      ''out/frames/10.png''] =
     [Some 1, Some 2, Some 3, Some 4, Some 5, Some 6, Some 7, Some 8, Some 9, Some 10]"
    by code_simp
  have b1: "list_all hasSafeNumber
     [''out/frames/1.png'', ''out/frames/2.png'', ''out/frames/3.png'',
      ''out/frames/4.png'', ''out/frames/5.png'', ''out/frames/6.png'',
      ''out/frames/7.png'', ''out/frames/8.png'', ''out/frames/9.png'',
      ''out/frames/10.png'']"
    using n1 by (simp add: hasSafeNumber_def)
  then have h1: "\<forall>p\<in>set [''out/frames/1.png'', ''out/frames/2.png'', ''out/frames/3.png'',
               ''out/frames/4.png'', ''out/frames/5.png'', ''out/frames/6.png'',
               ''out/frames/7.png'', ''out/frames/8.png'', ''out/frames/9.png'',
               ''out/frames/10.png'']. hasSafeNumber p"
    by (simp only: list_all_iff)
  have b2: "(10 :: nat) < 2 ^ 53"
    by simp
  have h2: "mset (pngEntries sampleTree ''out/frames'') = mset (map frameName [1..<Suc 10])"
    by code_simp
  have n3: "map frameNumber [''out/a.png'', ''out/b.png'', ''out/c.png''] = [None, None, None]"
    by code_simp
  have c3: "consistent_on (set [''out/a.png'', ''out/b.png'', ''out/c.png'']) codeUnitCompare"
    by code_simp
  from n3 c3 have h3: "(\<forall>p\<in>set [''out/a.png'', ''out/b.png'', ''out/c.png'']. frameNumber p = None)
            \<and> consistent_on (set [''out/a.png'', ''out/b.png'', ''out/c.png'']) codeUnitCompare"
    by simp
  note numbered = frames_sorted_when_names_uniform [OF sample_run, unfolded ExtractedContent.select_convs]
  note plain = frames_sorted_when_names_uniform [OF plain_run, unfolded ExtractedContent.select_convs]
  from numbered h1 have s1: "sorted (map (the \<circ> frameNumber)
        [''out/frames/1.png'', ''out/frames/2.png'', ''out/frames/3.png'',
         ''out/frames/4.png'', ''out/frames/5.png'', ''out/frames/6.png'',
         ''out/frames/7.png'', ''out/frames/8.png'', ''out/frames/9.png'',
         ''out/frames/10.png''])"
    by blast
  from numbered b2 h2 have s2: "[''out/frames/1.png'', ''out/frames/2.png'', ''out/frames/3.png'',
       ''out/frames/4.png'', ''out/frames/5.png'', ''out/frames/6.png'',
       ''out/frames/7.png'', ''out/frames/8.png'', ''out/frames/9.png'',
       ''out/frames/10.png''] = map (\<lambda>i. path_join ''out/frames'' (frameName i)) [1..<Suc 10]"
    by blast
  from plain h3 have s3: "sorted_wrt (\<lambda>a b. codeUnitCompare a b \<le> 0)
       [''out/a.png'', ''out/b.png'', ''out/c.png'']"
    by blast
  from n1 b1 s1 b2 h2 s2 n3 c3 s3 show ?thesis by blast
qed

text \<open>
  C4 as stated fails when names with and without digits are mixed: the comparator then
  compares numbers for some pairs and whole paths for others, and is not transitive.
  The listing \<^verbatim>\<open>a2.png, ab.png, b1.png\<close> is returned unchanged (every neighbouring pair is
  in comparator order, so a stable sort has nothing to move), with frame 2 before frame 1.
\<close>

theorem mixed_names_counterexample:
  "fst (analyzeExtractedContent codeUnitCompare ''out'' mixedTree) =
     Inr \<lparr>framesDir = ''out'', frameFiles = [''out/a2.png'', ''out/ab.png'', ''out/b1.png''],
           audioFiles = [], frameCount = 3\<rparr>
   \<and> frameNumber ''out/a2.png'' = Some 2
   \<and> frameNumber ''out/b1.png'' = Some 1
   \<and> \<not> numbersAscending [''out/a2.png'', ''out/ab.png'', ''out/b1.png'']"
proof -
  have "frameNumber ''out/a2.png'' = Some 2" "frameNumber ''out/b1.png'' = Some 1"
    by code_simp+
  moreover have "\<not> numbersAscending [''out/a2.png'', ''out/ab.png'', ''out/b1.png'']"
    by code_simp
  ultimately show ?thesis by (simp add: mixed_run)
qed

section \<open>Properties of \<^verbatim>\<open>extractSWF\<close>\<close>

lemma settled_foldl_deliver:
  "settled (foldl deliver s cbs) =
     (case settled s of Some r \<Rightarrow> Some r
      | None \<Rightarrow> if list_all isProgress cbs then None else Some (Inr ()))"
proof (induction cbs arbitrary: s)
  case Nil
  then show ?case by (simp split: option.splits)
next
  case (Cons cb cbs)
  show ?case
    by (cases cb) (auto simp: Cons.IH settle_def isProgress_def split: option.splits)
qed

lemma flag_foldl_deliver:
  "jpexsSucceeded (foldl deliver s cbs) = (jpexsSucceeded s \<or> OnClose \<in> set cbs)"
proof (induction cbs arbitrary: s)
  case Nil
  then show ?case by simp
next
  case (Cons cb cbs)
  show ?case
    by (cases cb) (auto simp: Cons.IH settle_def split: option.splits)
qed

lemma settled_supervise:
  "settled (superviseDecompiler m cbs) =
     (if list_all isProgress cbs then Some (Inl (TimedOut m)) else Some (Inr ()))"
  by (simp add: superviseDecompiler_def settle_def settled_foldl_deliver split: option.splits)

lemma flag_supervise:
  "jpexsSucceeded (superviseDecompiler m cbs) = (OnClose \<in> set cbs)"
  by (simp add: superviseDecompiler_def Let_def settle_def flag_foldl_deliver split: option.splits)

lemma dispatch_close: "dispatch e = OnClose \<longleftrightarrow> e = Close"
  by (cases e) (simp_all add: onStderr_def onProcessError_def)

lemma close_delivered:
  "OnClose \<in> set (extractSWFContent swfExists swfFile events) \<longleftrightarrow>
   swfExists \<and> Close \<in> set events"
proof (cases swfExists)
  case True
  have "OnClose \<in> dispatch ` set events \<longleftrightarrow> Close \<in> set events"
    using dispatch_close by (metis (no_types) image_iff)
  with True show ?thesis by (simp add: extractSWFContent_def)
next
  case False
  then show ?thesis by (simp add: extractSWFContent_def)
qed

lemma framesCheck_eq: "framesCheck out fs = (Inr (framesOnDisk fs out), fs)"
  unfolding framesCheck_def Let_def io_bind_def io_return_def existsSync_def readdirSync_def
    framesOnDisk_def pngEntries_def pngRegexTest_def isPngName_def
  by (cases "fs (path_join out ''frames'')"; cases "fs out"; simp)

lemma resolveTimeout_fails:
  "resolveTimeout t stat = Inl e \<longleftrightarrow> \<not> truthy t \<and> stat = None \<and> e = ENOENT"
  by (auto simp: resolveTimeout_def Let_def split: option.splits)

lemma resolveTimeout_cases:
  obtains "\<not> truthy t" "stat = None" "resolveTimeout t stat = Inl ENOENT"
  | ms mins where "truthy t \<or> stat \<noteq> None" "resolveTimeout t stat = Inr (ms, mins)"
  by (cases "resolveTimeout t stat") (auto simp: resolveTimeout_fails)

lemma extractSWF_no_timeout_value:
  assumes "\<not> truthy t" "swfStat env = None"
  shows "extractSWF env swfFile out t = \<lparr>thrown = Some ENOENT, steps = []\<rparr>"
  using assms by (simp add: extractSWF_def resolveTimeout_def)

lemma extractSWF_timed_out:
  assumes "resolveTimeout t (swfStat env) = Inr (ms, mins)" "timedOut env swfFile"
  shows "extractSWF env swfFile out t =
           \<lparr>thrown = Some (TimedOut mins), steps = [Decompiler (Inl (TimedOut mins))]\<rparr>"
  using assms by (simp add: extractSWF_def settled_supervise timedOut_def runCallbacks_def)

lemma extractSWF_completed:
  assumes "resolveTimeout t (swfStat env) = Inr (ms, mins)" "\<not> timedOut env swfFile"
  shows "extractSWF env swfFile out t =
           \<lparr>thrown = (if OnClose \<notin> set (runCallbacks env swfFile) \<and>
                         \<not> framesOnDisk (treeAfter env) out
                      then Some ExtractionFailedCompletely else None),
            steps = [Decompiler (Inr ()),
                     AudioFallback
                       (fst (extractAudioWithFFmpeg (ffmpegInitialized env) (audioEvent env) swfFile out))
                       (snd (extractAudioWithFFmpeg (ffmpegInitialized env) (audioEvent env) swfFile out)),
                     FramesCheck (framesOnDisk (treeAfter env) out)]\<rparr>"
  using assms
  by (simp add: extractSWF_def settled_supervise timedOut_def runCallbacks_def flag_supervise
      framesCheck_eq case_prod_beta)

lemma firstSettling_None: "firstSettling cbs = None \<longleftrightarrow> list_all isProgress cbs"
  by (auto simp: firstSettling_def find_None_iff list_all_iff)

lemma firstSettling_in: "firstSettling cbs = Some cb \<Longrightarrow> cb \<in> set cbs"
  unfolding firstSettling_def by (metis find_Some_iff nth_mem)

text \<open>When no close follows a reported error, the flag says how the step ended.\<close>

lemma flag_is_clean_close:
  "\<not> closedAfterError env swfFile \<Longrightarrow>
   OnClose \<in> set (runCallbacks env swfFile) \<longleftrightarrow> closedCleanly env swfFile"
  unfolding closedAfterError_def closedCleanly_def using firstSettling_in by blast

text \<open>
  C1 (as the code has it). A run of \<^verbatim>\<open>extractSWF\<close> in which no close follows a reported
  error throws exactly when the timeout cannot be computed (no override and no source file
  to measure), or the decompiler times out, or the decompiler did not close cleanly and no
  frame file is on disk. A timeout throws whether or not frames exist. A run in which the
  decompiler step ended, cleanly or with a fatal error, and at least one frame is on disk
  succeeds.
\<close>

theorem extraction_throws_iff:
  "(\<not> closedAfterError env swfFile \<longrightarrow>
      (thrown (extractSWF env swfFile outputDir t) \<noteq> None \<longleftrightarrow>
         (\<not> truthy t \<and> swfStat env = None)
         \<or> timedOut env swfFile
         \<or> (\<not> closedCleanly env swfFile \<and> \<not> framesOnDisk (treeAfter env) outputDir)))
   \<and> ((truthy t \<or> swfStat env \<noteq> None) \<and> timedOut env swfFile \<longrightarrow>
        (\<exists>ms mins. resolveTimeout t (swfStat env) = Inr (ms, mins)
           \<and> thrown (extractSWF env swfFile outputDir t) = Some (TimedOut mins)))
   \<and> ((truthy t \<or> swfStat env \<noteq> None) \<and> \<not> timedOut env swfFile
        \<and> framesOnDisk (treeAfter env) outputDir \<longrightarrow>
        thrown (extractSWF env swfFile outputDir t) = None)"
proof (cases t "swfStat env" rule: resolveTimeout_cases)
  case 1
  then show ?thesis
    by (simp add: extractSWF_no_timeout_value)
next
  case (2 ms mins)
  show ?thesis
  proof (cases "timedOut env swfFile")
    case True
    with 2 show ?thesis
      by (simp add: extractSWF_timed_out [OF 2(2) True])
  next
    case False
    with 2 show ?thesis
      by (auto simp: extractSWF_completed [OF 2(2) False] flag_is_clean_close)
  qed
qed

text \<open>
  What the amended statement leaves aside: a close that follows a reported error sets the
  flag, and the run then succeeds even when no frame is on disk.
\<close>

lemma close_after_error_succeeds:
  assumes "truthy t \<or> swfStat env \<noteq> None" "closedAfterError env swfFile"
  shows "thrown (extractSWF env swfFile outputDir t) = None"
proof -
  from assms(1) obtain ms mins where r: "resolveTimeout t (swfStat env) = Inr (ms, mins)"
    by (cases t "swfStat env" rule: resolveTimeout_cases) auto
  from assms(2) have c: "OnClose \<in> set (runCallbacks env swfFile)"
    by (simp add: closedAfterError_def)
  moreover have "\<not> isProgress OnClose" by (simp add: isProgress_def)
  ultimately have "\<not> list_all isProgress (runCallbacks env swfFile)"
    unfolding list_all_iff by blast
  then have "\<not> timedOut env swfFile" by (simp add: timedOut_def)
  from extractSWF_completed [OF r this] c show ?thesis by simp
qed

lemma timeout_run:
  "extractSWF timeoutEnv ''a.swf'' ''out'' None =
     \<lparr>thrown = Some (TimedOut (Num 12)), steps = [Decompiler (Inl (TimedOut (Num 12)))]\<rparr>"
proof -
  have "math_round 12 = 12"
    unfolding math_round_def by (rule floor_unique; simp)
  then have "autoTimeoutMinutes (fileSizeMB 2097152) = 12"
    by (simp add: autoTimeoutMinutes_def calculatedTimeout_def fileSizeMB_def Let_def)
  then have r: "resolveTimeout None (swfStat timeoutEnv) = Inr (Num 720000, Num 12)"
    by (simp add: resolveTimeout_def timeoutEnv_def Let_def)
  have "timedOut timeoutEnv ''a.swf''"
    by (simp add: timedOut_def runCallbacks_def timeoutEnv_def extractSWFContent_def isProgress_def)
  with r show ?thesis by (rule extractSWF_timed_out)
qed

lemma timeout_frames: "framesOnDisk (treeAfter timeoutEnv) ''out''"
proof -
  have "framesOnDisk timeoutTree ''out''" by code_simp
  then show ?thesis by (simp add: timeoutEnv_def)
qed

text \<open>
  C1 as stated fails for a timeout: the timer rejects the promise, the rejection is
  rethrown, and the frames check is never reached, although a frame is on disk.
\<close>

theorem timeout_with_frames_counterexample:
  "thrown (extractSWF timeoutEnv ''a.swf'' ''out'' None) = Some (TimedOut (Num 12))
   \<and> pngEntries (treeAfter timeoutEnv) ''out/frames'' = [''1.png'']
   \<and> framesOnDisk (treeAfter timeoutEnv) ''out''"
proof -
  have "pngEntries timeoutTree ''out/frames'' = [''1.png'']"
    by code_simp
  then have "pngEntries (treeAfter timeoutEnv) ''out/frames'' = [''1.png'']"
    by (simp add: timeoutEnv_def)
  with timeout_frames show ?thesis by (simp add: timeout_run)
qed

lemma fatal_stderr:
  "onStderr ''Bad Commandline Arguments'' = OnError ''Bad Commandline Arguments''"
  "onStderr ''Input SWF file does not exist'' = OnError ''Input SWF file does not exist''"
  by code_simp+

lemma partial_callbacks:
  "runCallbacks partialEnv ''b.swf'' =
     [OnStdout ''Exported frame 1/10'', OnError ''Bad Commandline Arguments'']"
  by (simp add: runCallbacks_def partialEnv_def extractSWFContent_def fatal_stderr)

lemma fatal_callbacks:
  "runCallbacks fatalEnv ''b.swf'' = [OnError ''Input SWF file does not exist'']"
  by (simp add: runCallbacks_def fatalEnv_def extractSWFContent_def fatal_stderr)

lemma partial_facts:
  "truthy (Some (Num 1))" "\<not> timedOut partialEnv ''b.swf''" "\<not> closedCleanly partialEnv ''b.swf''"
  "\<not> closedAfterError partialEnv ''b.swf''" "framesOnDisk (treeAfter partialEnv) ''out''"
proof -
  show "truthy (Some (Num 1))" by simp
  show "\<not> timedOut partialEnv ''b.swf''"
    by (simp add: timedOut_def partial_callbacks isProgress_def)
  show "\<not> closedCleanly partialEnv ''b.swf''"
    by (simp add: closedCleanly_def firstSettling_def partial_callbacks isProgress_def)
  show "\<not> closedAfterError partialEnv ''b.swf''"
    by (simp add: closedAfterError_def partial_callbacks)
  have "framesOnDisk sampleTree ''out''" by code_simp
  then show "framesOnDisk (treeAfter partialEnv) ''out''"
    by (simp add: partialEnv_def)
qed

lemma fatal_facts:
  "\<not> timedOut fatalEnv ''b.swf''" "\<not> closedCleanly fatalEnv ''b.swf''"
  "\<not> closedAfterError fatalEnv ''b.swf''" "\<not> framesOnDisk (treeAfter fatalEnv) ''out''"
proof -
  show "\<not> timedOut fatalEnv ''b.swf''"
    by (simp add: timedOut_def fatal_callbacks isProgress_def)
  show "\<not> closedCleanly fatalEnv ''b.swf''"
    by (simp add: closedCleanly_def firstSettling_def fatal_callbacks isProgress_def)
  show "\<not> closedAfterError fatalEnv ''b.swf''"
    by (simp add: closedAfterError_def fatal_callbacks)
  show "\<not> framesOnDisk (treeAfter fatalEnv) ''out''"
    by (simp add: fatalEnv_def framesOnDisk_def pngEntries_def)
qed

lemma timeout_facts:
  "swfStat timeoutEnv \<noteq> None" "timedOut timeoutEnv ''a.swf''"
  by (simp_all add: timedOut_def runCallbacks_def timeoutEnv_def extractSWFContent_def isProgress_def)

theorem extraction_throws_witness:
  "truthy (Some (Num 1)) \<and> \<not> timedOut partialEnv ''b.swf'' \<and> \<not> closedCleanly partialEnv ''b.swf''
   \<and> framesOnDisk (treeAfter partialEnv) ''out''
   \<and> thrown (extractSWF partialEnv ''b.swf'' ''out'' (Some (Num 1))) = None
   \<and> swfStat timeoutEnv \<noteq> None \<and> timedOut timeoutEnv ''a.swf''
   \<and> thrown (extractSWF timeoutEnv ''a.swf'' ''out'' None) \<noteq> None
   \<and> \<not> closedAfterError fatalEnv ''b.swf'' \<and> \<not> closedCleanly fatalEnv ''b.swf''
   \<and> \<not> framesOnDisk (treeAfter fatalEnv) ''out''
   \<and> thrown (extractSWF fatalEnv ''b.swf'' ''out'' None) \<noteq> None"
proof -
  from extraction_throws_iff [of partialEnv "''b.swf''" "''out''" "Some (Num 1)"] partial_facts
  have 1: "thrown (extractSWF partialEnv ''b.swf'' ''out'' (Some (Num 1))) = None"
    by blast
  from extraction_throws_iff [of timeoutEnv "''a.swf''" "''out''" None] timeout_facts
  have 2: "thrown (extractSWF timeoutEnv ''a.swf'' ''out'' None) \<noteq> None"
    by blast
  from extraction_throws_iff [of fatalEnv "''b.swf''" "''out''" None] fatal_facts
  have 3: "thrown (extractSWF fatalEnv ''b.swf'' ''out'' None) \<noteq> None"
    by blast
  from 1 2 3 partial_facts timeout_facts fatal_facts show ?thesis by blast
qed

lemma fallback_commands:
  "snd (extractAudioWithFFmpeg i e swfFile out) =
     (if i then [\<lparr>audioInput = swfFile, audioNoVideo = True, audioCodecName = ''copy'',
                  audioOutput = path_join (path_join out ''sounds'') ''0.mp3''\<rparr>] else [])"
  by (auto simp: extractAudioWithFFmpeg_def Let_def split: if_splits ffmpeg_event.splits)

text \<open>
  C6. When the decompiler step completes, by closing or by reporting an error, the audio
  fallback is the next step, whichever of the two it was. The one command it runs writes
  to \<^verbatim>\<open>sounds/0.mp3\<close> under the output directory. How the fallback ends (and whether the
  encoder was available at all) has no influence on how the run ends.
\<close>

theorem audio_fallback_after_decompiler:
  assumes "truthy t \<or> swfStat env \<noteq> None" and "\<not> timedOut env swfFile"
  shows "steps (extractSWF env swfFile outputDir t) =
           [Decompiler (Inr ()),
            AudioFallback
              (fst (extractAudioWithFFmpeg (ffmpegInitialized env) (audioEvent env) swfFile outputDir))
              (if ffmpegInitialized env
               then [\<lparr>audioInput = swfFile, audioNoVideo = True, audioCodecName = ''copy'',
                       audioOutput = path_join (path_join outputDir ''sounds'') ''0.mp3''\<rparr>]
               else []),
            FramesCheck (framesOnDisk (treeAfter env) outputDir)]
    \<and> (\<forall>i e. thrown (extractSWF (env\<lparr>ffmpegInitialized := i, audioEvent := e\<rparr>) swfFile outputDir t) =
               thrown (extractSWF env swfFile outputDir t))"
proof -
  from assms(1) obtain ms mins where r: "resolveTimeout t (swfStat env) = Inr (ms, mins)"
    by (cases t "swfStat env" rule: resolveTimeout_cases) auto
  note run = extractSWF_completed [OF r assms(2), of outputDir]
  have other: "thrown (extractSWF (env\<lparr>ffmpegInitialized := i, audioEvent := e\<rparr>) swfFile outputDir t) =
        thrown (extractSWF env swfFile outputDir t)" for i e
  proof -
    let ?env = "env\<lparr>ffmpegInitialized := i, audioEvent := e\<rparr>"
    have cbs: "runCallbacks ?env swfFile = runCallbacks env swfFile"
      by (simp add: runCallbacks_def)
    have "resolveTimeout t (swfStat ?env) = Inr (ms, mins)" using r by simp
    moreover have "\<not> timedOut ?env swfFile" using assms(2) by (simp add: timedOut_def cbs)
    ultimately have "thrown (extractSWF ?env swfFile outputDir t) =
        (if OnClose \<notin> set (runCallbacks ?env swfFile) \<and> \<not> framesOnDisk (treeAfter ?env) outputDir
         then Some ExtractionFailedCompletely else None)"
      by (simp add: extractSWF_completed)
    then show ?thesis by (simp add: run cbs)
  qed
  show ?thesis
    by (simp add: run other fallback_commands)
qed

theorem audio_fallback_witness:
  "truthy (Some (Num 1)) \<and> \<not> timedOut partialEnv ''b.swf''
   \<and> steps (extractSWF partialEnv ''b.swf'' ''out'' (Some (Num 1))) =
       [Decompiler (Inr ()),
        AudioFallback (Inl (FFmpegAudioFailed ''Invalid data found when processing input''))
          [\<lparr>audioInput = ''b.swf'', audioNoVideo = True, audioCodecName = ''copy'',
            audioOutput = ''out/sounds/0.mp3''\<rparr>],
        FramesCheck True]
   \<and> thrown (extractSWF (partialEnv\<lparr>ffmpegInitialized := False, audioEvent := End\<rparr>)
               ''b.swf'' ''out'' (Some (Num 1))) =
       thrown (extractSWF partialEnv ''b.swf'' ''out'' (Some (Num 1)))"
proof -
  have f: "fst (extractAudioWithFFmpeg True (Error ''Invalid data found when processing input'')
             ''b.swf'' ''out'') =
           Inl (FFmpegAudioFailed ''Invalid data found when processing input'')"
    by code_simp
  have env: "ffmpegInitialized partialEnv"
    "audioEvent partialEnv = Error ''Invalid data found when processing input''"
    by (simp_all add: partialEnv_def)
  have h: "truthy (Some (Num 1)) \<or> swfStat partialEnv \<noteq> None"
    by simp
  from audio_fallback_after_decompiler [OF h partial_facts(2), of "''out''"]
  show ?thesis
    using partial_facts by (simp add: env f path_join_def)
qed

section \<open>Properties of the Frame-Rate Detector\<close>

lemma takeWhile_stop: "ys = [] \<or> \<not> P (hd ys) \<Longrightarrow> takeWhile P ys = []"
  by (cases ys) auto

lemma dropWhile_stop: "ys = [] \<or> \<not> P (hd ys) \<Longrightarrow> dropWhile P ys = ys"
  by (cases ys) auto

lemma takeWhile_run:
  "list_all P xs \<Longrightarrow> ys = [] \<or> \<not> P (hd ys) \<Longrightarrow> takeWhile P (xs @ ys) = xs"
  by (induction xs) (simp_all add: takeWhile_stop)

lemma dropWhile_run:
  "list_all P xs \<Longrightarrow> ys = [] \<or> \<not> P (hd ys) \<Longrightarrow> dropWhile P (xs @ ys) = ys"
  by (induction xs) (simp_all add: dropWhile_stop)

lemma list_all_takeWhile: "list_all P (takeWhile P xs)"
  by (induction xs) auto

lemma space_not_digit: "isSpace c \<Longrightarrow> \<not> isDigit c \<and> c \<noteq> CHR ''.''"
  by (auto simp: isSpace_def isDigit_def Let_def)

lemma dot_not_digit: "\<not> isDigit CHR ''.''"
  by (simp add: isDigit_def)

text \<open>The shape of a numeral.\<close>

lemma isNumeral_cases:
  "isNumeral g \<longleftrightarrow>
     (g \<noteq> [] \<and> list_all isDigit g) \<or>
     (\<exists>ip fp. ip \<noteq> [] \<and> list_all isDigit ip \<and> fp \<noteq> [] \<and> list_all isDigit fp \<and> g = ip @ ''.'' @ fp)"
  (is "?l \<longleftrightarrow> ?a \<or> ?b")
proof
  assume ?l
  let ?ip = "takeWhile isDigit g" and ?r = "dropWhile isDigit g"
  have g: "g = ?ip @ ?r" by simp
  from \<open>?l\<close> have ip: "?ip \<noteq> []" by (simp add: isNumeral_def Let_def)
  show "?a \<or> ?b"
  proof (cases ?r)
    case Nil
    with g have "g = ?ip" by (metis append_Nil2)
    moreover have "list_all isDigit ?ip" by (rule list_all_takeWhile)
    ultimately have "list_all isDigit g" by metis
    moreover have "g \<noteq> []" using ip by auto
    ultimately show ?thesis by blast
  next
    case (Cons c fp)
    with \<open>?l\<close> have "c = CHR ''.''" "fp \<noteq> []" "list_all isDigit fp"
      by (simp_all add: isNumeral_def Let_def)
    moreover have "g = ?ip @ ''.'' @ fp" using g Cons \<open>c = CHR ''.''\<close> by simp
    ultimately have ?b using ip list_all_takeWhile [of isDigit g] by blast
    then show ?thesis ..
  qed
next
  assume "?a \<or> ?b"
  then show ?l
  proof
    assume ?a
    then have tw: "takeWhile isDigit g = g" and dw: "dropWhile isDigit g = []"
      using takeWhile_run [of isDigit g "[]"] dropWhile_run [of isDigit g "[]"] by simp_all
    from \<open>?a\<close> show ?l unfolding isNumeral_def Let_def tw dw by simp
  next
    assume ?b
    then obtain ip fp where *: "ip \<noteq> []" "list_all isDigit ip" "fp \<noteq> []" "list_all isDigit fp"
      "g = ip @ ''.'' @ fp" by blast
    have tw: "takeWhile isDigit g = ip" and dw: "dropWhile isDigit g = ''.'' @ fp"
      using takeWhile_run [of isDigit ip "''.'' @ fp"] dropWhile_run [of isDigit ip "''.'' @ fp"] *
      by (simp_all add: dot_not_digit)
    from * show ?l unfolding isNumeral_def Let_def tw dw by simp
  qed
qed

lemma matchRateAt_complete:
  assumes unit: "unit \<noteq> []" "\<not> isSpace (hd unit)"
    and m: "rateMarkerAt unit s g"
  shows "matchRateAt unit s = Some g"
proof -
  from m obtain ws rest where num: "isNumeral g" and ws: "ws \<noteq> []" "list_all isSpace ws"
    and s: "s = g @ ws @ unit @ rest"
    unfolding rateMarkerAt_def by blast
  let ?tail = "ws @ unit @ rest"
  have hd_tail: "isSpace (hd ?tail)" using ws by (cases ws) auto
  then have tail_nd: "?tail = [] \<or> \<not> isDigit (hd ?tail)" and tail_dot: "hd ?tail \<noteq> CHR ''.''"
    using space_not_digit by blast+
  have tail_ne: "?tail \<noteq> []" using ws by simp
  have spaces: "takeWhile isSpace ?tail = ws" "dropWhile isSpace ?tail = unit @ rest"
    using takeWhile_run [of isSpace ws "unit @ rest"] dropWhile_run [of isSpace ws "unit @ rest"]
      ws unit by (simp_all add: hd_append)
  from num consider (int) "g \<noteq> []" "list_all isDigit g"
    | (frac) ip fp where "ip \<noteq> []" "list_all isDigit ip" "fp \<noteq> []" "list_all isDigit fp"
        "g = ip @ ''.'' @ fp"
    unfolding isNumeral_cases by blast
  then show ?thesis
  proof cases
    case int
    have tw: "takeWhile isDigit s = g" and dw: "dropWhile isDigit s = ?tail"
      unfolding s using takeWhile_run [OF int(2) tail_nd] dropWhile_run [OF int(2) tail_nd]
      by simp_all
    have fr: "(case ?tail of [] \<Rightarrow> [] | c # cs \<Rightarrow> if c = CHR ''.'' then takeWhile isDigit cs else []) = []"
      using tail_dot tail_ne by (cases ?tail) auto
    show ?thesis
      unfolding matchRateAt_def Let_def tw dw fr
      using int(1) ws by (simp add: s spaces startsWith_def)
  next
    case frac
    have nd: "''.'' @ fp @ ?tail = [] \<or> \<not> isDigit (hd (''.'' @ fp @ ?tail))"
      by (simp add: dot_not_digit)
    have s': "s = ip @ ''.'' @ fp @ ?tail" using s frac(5) by simp
    have tw: "takeWhile isDigit s = ip" and dw: "dropWhile isDigit s = ''.'' @ fp @ ?tail"
      unfolding s' using takeWhile_run [OF frac(2) nd] dropWhile_run [OF frac(2) nd]
      by simp_all
    have fr: "takeWhile isDigit (fp @ ?tail) = fp"
      using takeWhile_run [OF frac(4) tail_nd] .
    show ?thesis
      unfolding matchRateAt_def Let_def tw dw
      using frac(1,3) ws by (simp add: fr s' frac(5) spaces startsWith_def)
  qed
qed

lemma matchRateAt_sound:
  assumes "matchRateAt unit s = Some g"
  shows "rateMarkerAt unit s g"
proof -
  let ?ip = "takeWhile isDigit s" and ?r = "dropWhile isDigit s"
  let ?f = "case ?r of [] \<Rightarrow> [] | c # cs \<Rightarrow> if c = CHR ''.'' then takeWhile isDigit cs else []"
  let ?g = "if ?f = [] then ?ip else ?ip @ ''.'' @ ?f"
  let ?after = "drop (length ?g) s"
  from assms have ip: "?ip \<noteq> []" and sp: "takeWhile isSpace ?after \<noteq> []"
    and st: "startsWith (dropWhile isSpace ?after) unit" and g: "g = ?g"
    by (auto simp: matchRateAt_def Let_def split: if_splits)
  have prefix: "s = ?g @ ?after"
  proof (cases "?f = []")
    case True
    have "s = ?ip @ ?r" by simp
    then have "\<exists>t. s = ?g @ t" using True by metis
    then show ?thesis by (metis append_eq_conv_conj)
  next
    case False
    then obtain cs where r: "?r = CHR ''.'' # cs" and f: "?f = takeWhile isDigit cs"
      by (cases ?r) (auto split: if_splits)
    have "s = ?ip @ ?r" by simp
    also have "\<dots> = ?ip @ ''.'' @ takeWhile isDigit cs @ dropWhile isDigit cs"
      by (simp add: r)
    finally have "s = (?ip @ ''.'' @ ?f) @ dropWhile isDigit cs"
      by (simp add: f)
    then have "\<exists>t. s = ?g @ t" using False by auto
    then show ?thesis by (metis append_eq_conv_conj)
  qed
  have num: "isNumeral ?g"
  proof (cases "?f = []")
    case True
    with ip list_all_takeWhile [of isDigit s] show ?thesis
      unfolding isNumeral_cases by simp
  next
    case False
    then obtain cs where "?f = takeWhile isDigit cs"
      by (cases ?r) (auto split: if_splits)
    then have "list_all isDigit ?f" by (simp add: list_all_takeWhile)
    with False ip list_all_takeWhile [of isDigit s] show ?thesis
      unfolding isNumeral_cases by auto
  qed
  let ?ws = "takeWhile isSpace ?after" and ?rest = "drop (length unit) (dropWhile isSpace ?after)"
  have "dropWhile isSpace ?after = unit @ ?rest"
    using st by (metis append_take_drop_id startsWith_def)
  then have "?after = ?ws @ unit @ ?rest"
    by (metis takeWhile_dropWhile_id)
  with prefix have "s = ?g @ ?ws @ unit @ ?rest" by simp
  with num sp list_all_takeWhile [of isSpace ?after] show ?thesis
    unfolding rateMarkerAt_def g by blast
qed

lemma matchRateAt_iff:
  "unit \<noteq> [] \<Longrightarrow> \<not> isSpace (hd unit) \<Longrightarrow>
   matchRateAt unit s = Some g \<longleftrightarrow> rateMarkerAt unit s g"
  using matchRateAt_complete matchRateAt_sound by blast

lemma matchRateAt_Nil: "matchRateAt unit [] = None"
  by (simp add: matchRateAt_def)

lemma matchRate_None_iff:
  "matchRate unit s = None \<longleftrightarrow> (\<forall>pre post. s = pre @ post \<longrightarrow> matchRateAt unit post = None)"
proof (induction s)
  case Nil
  then show ?case by (simp add: matchRateAt_Nil)
next
  case (Cons c cs)
  have "(\<forall>pre post. c # cs = pre @ post \<longrightarrow> matchRateAt unit post = None) \<longleftrightarrow>
        matchRateAt unit (c # cs) = None \<and>
        (\<forall>pre post. cs = pre @ post \<longrightarrow> matchRateAt unit post = None)"
    by (auto simp: Cons_eq_append_conv)
  with Cons.IH show ?case
    by (simp split: option.splits)
qed

lemma matchRate_Some_iff:
  "matchRate unit s = Some g \<longleftrightarrow>
     (\<exists>pre post. s = pre @ post \<and> matchRateAt unit post = Some g \<and>
        (\<forall>pre' post'. s = pre' @ post' \<and> length pre' < length pre \<longrightarrow>
           matchRateAt unit post' = None))"
  (is "?l s \<longleftrightarrow> ?r s")
proof (induction s)
  case Nil
  then show ?case by (simp add: matchRateAt_Nil)
next
  case (Cons c cs)
  show ?case
  proof (cases "matchRateAt unit (c # cs)")
    case (Some g')
    have "?r (c # cs) \<longleftrightarrow> g' = g"
    proof
      assume "?r (c # cs)"
      then obtain pre post where *: "c # cs = pre @ post" "matchRateAt unit post = Some g"
        and first: "\<forall>pre' post'. c # cs = pre' @ post' \<and> length pre' < length pre \<longrightarrow>
           matchRateAt unit post' = None"
        by blast
      have "pre = []"
      proof (rule ccontr)
        assume "pre \<noteq> []"
        then have "length [] < length pre" by simp
        with first have "matchRateAt unit (c # cs) = None" by (metis append_Nil)
        with Some show False by simp
      qed
      with * Some show "g' = g" by simp
    next
      assume "g' = g"
      with Some have "c # cs = [] @ (c # cs) \<and> matchRateAt unit (c # cs) = Some g \<and>
        (\<forall>pre' post'. c # cs = pre' @ post' \<and> length pre' < length ([]::string) \<longrightarrow>
           matchRateAt unit post' = None)"
        by simp
      then show "?r (c # cs)" by blast
    qed
    with Some show ?thesis by simp
  next
    case None
    have "?r (c # cs) \<longleftrightarrow> ?r cs"
    proof
      assume "?r (c # cs)"
      then obtain pre post where *: "c # cs = pre @ post" "matchRateAt unit post = Some g"
        and first: "\<forall>pre' post'. c # cs = pre' @ post' \<and> length pre' < length pre \<longrightarrow>
           matchRateAt unit post' = None"
        by blast
      from * None obtain pre1 where pre: "pre = c # pre1" "cs = pre1 @ post"
        by (cases pre) auto
      have "matchRateAt unit post' = None" if "cs = pre' @ post'" "length pre' < length pre1"
        for pre' post'
      proof -
        from that have "c # cs = (c # pre') @ post'" "length (c # pre') < length pre"
          using pre by simp_all
        with first show ?thesis by blast
      qed
      with pre * show "?r cs" by blast
    next
      assume "?r cs"
      then obtain pre post where *: "cs = pre @ post" "matchRateAt unit post = Some g"
        and first: "\<forall>pre' post'. cs = pre' @ post' \<and> length pre' < length pre \<longrightarrow>
           matchRateAt unit post' = None"
        by blast
      have "matchRateAt unit post' = None"
        if "c # cs = pre' @ post'" "length pre' < length (c # pre)" for pre' post'
      proof (cases pre')
        case Nil
        with that None show ?thesis by simp
      next
        case (Cons d pre1)
        with that have "cs = pre1 @ post'" "length pre1 < length pre" by simp_all
        with first show ?thesis by blast
      qed
      moreover have "c # cs = (c # pre) @ post" using * by simp
      ultimately show "?r (c # cs)" using *(2) by blast
    qed
    with None Cons.IH show ?thesis by simp
  qed
qed

lemma no_marker_at:
  assumes "unit \<noteq> []" "\<not> isSpace (hd unit)"
  shows "matchRateAt unit s = None \<longleftrightarrow> (\<forall>g. \<not> rateMarkerAt unit s g)"
  using matchRateAt_iff [OF assms] by (metis not_Some_eq)

lemma matchRate_firstMarker:
  assumes "unit \<noteq> []" "\<not> isSpace (hd unit)"
  shows "matchRate unit txt = Some g \<longleftrightarrow> firstMarker unit txt g"
  unfolding matchRate_Some_iff firstMarker_def
  by (simp only: matchRateAt_iff [OF assms] no_marker_at [OF assms]) blast

lemma matchRate_noMarker:
  assumes "unit \<noteq> []" "\<not> isSpace (hd unit)"
  shows "matchRate unit txt = None \<longleftrightarrow> noMarker unit txt"
  unfolding matchRate_None_iff noMarker_def
  by (simp only: no_marker_at [OF assms]) blast

lemma fps_unit: "''fps'' \<noteq> []" "\<not> isSpace (hd ''fps'')"
  by (simp_all add: isSpace_def)

lemma tbr_unit: "''tbr'' \<noteq> []" "\<not> isSpace (hd ''tbr'')"
  by (simp_all add: isSpace_def)

lemmas fps_first = matchRate_firstMarker [OF fps_unit]
lemmas fps_none = matchRate_noMarker [OF fps_unit]
lemmas tbr_first = matchRate_firstMarker [OF tbr_unit]
lemmas tbr_none = matchRate_noMarker [OF tbr_unit]

lemma acceptRate_Some:
  "parseFloat g = Finite v \<Longrightarrow> 0 < v \<Longrightarrow> v \<le> 120 \<Longrightarrow> acceptRate (Some g) = Some (math_round v)"
  by (simp add: acceptRate_def)

lemma acceptRate_None: "m = None \<or> (\<exists>g. m = Some g \<and> \<not> inRange g) \<Longrightarrow> acceptRate m = None"
proof (elim disjE exE conjE)
  assume "m = None"
  then show ?thesis by (simp add: acceptRate_def)
next
  fix g assume "m = Some g" "\<not> inRange g"
  then show ?thesis by (cases "parseFloat g") (auto simp: acceptRate_def inRange_def)
qed

lemma acceptRate_bounds: "acceptRate m = Some r \<Longrightarrow> 0 \<le> r \<and> r \<le> 120"
proof -
  assume "acceptRate m = Some r"
  then obtain v :: rat where "0 < v" "v \<le> 120" "r = math_round v"
    by (auto simp: acceptRate_def split: option.splits double.splits if_splits)
  then show ?thesis
    unfolding math_round_def by (simp add: le_floor_iff floor_le_iff)
qed

subsection \<open>The timer\<close>

lemma watchProbe_chunks:
  "inTime chunks \<Longrightarrow>
   watchProbe acc (stderrChunks chunks @ rest) = watchProbe (acc @ concat (map snd chunks)) rest"
  by (induction chunks arbitrary: acc) (auto simp: inTime_def stderrChunks_def)

lemma watchProbe_late: "rest = [] \<or> 30000 \<le> fst (hd rest) \<Longrightarrow> watchProbe acc rest = (ProbeTimeout, True)"
  by (cases rest) auto

lemma detectSWFFrameRate_Timeout: "detectSWFFrameRate p ProbeTimeout = 30"
  by (simp add: detectSWFFrameRate_def split: option.splits)

lemma detectSWFFrameRate_Error: "detectSWFFrameRate p (ProbeError message) = 30"
  by (simp add: detectSWFFrameRate_def split: option.splits)

text \<open>
  C5. Without an encoder the detector answers 30 and starts no process. Otherwise the
  timer decides when neither \<^verbatim>\<open>close\<close> nor \<^verbatim>\<open>error\<close> has come before 30000 ms: the
  process is killed and the answer is 30. An \<^verbatim>\<open>error\<close> before that gives 30, and a
  \<^verbatim>\<open>close\<close> before that gives what the diagnostic text says, which is the chunks of
  standard error received so far; in both cases the process is not killed. Of the text,
  the first \<^verbatim>\<open>fps\<close> marker decides if its value lies in \<open>(0, 120]\<close>, and the answer is that
  value rounded to the nearest integer; otherwise the first \<^verbatim>\<open>tbr\<close> marker decides in the
  same way; when neither marker is found or accepted the answer is 30. The value of a
  marker is the double that \<^verbatim>\<open>parseFloat\<close> returns for its numeral. The answer always lies
  between 0 and 120.
\<close>

theorem frame_rate_detection:
  "detectSWFFrameRateTimed None signals = (30, False)
   \<and> (inTime chunks \<and> (rest = [] \<or> 30000 \<le> fst (hd rest)) \<longrightarrow>
        detectSWFFrameRateTimed (Some path) (stderrChunks chunks @ rest) = (30, True))
   \<and> (inTime chunks \<and> t < 30000 \<longrightarrow>
        detectSWFFrameRateTimed (Some path) (stderrChunks chunks @ (t, ErrorEvent message) # rest) =
          (30, False))
   \<and> (inTime chunks \<and> t < 30000 \<longrightarrow>
        detectSWFFrameRateTimed (Some path) (stderrChunks chunks @ (t, CloseEvent) # rest) =
          (detectSWFFrameRate (Some path) (ProbeClose (concat (map snd chunks))), False))
   \<and> detectSWFFrameRate None ev = 30
   \<and> detectSWFFrameRate p ProbeTimeout = 30
   \<and> detectSWFFrameRate p (ProbeError message) = 30
   \<and> (firstMarker ''fps'' stderrData g \<and> parseFloat g = Finite v \<and> 0 < v \<and> v \<le> 120 \<longrightarrow>
        detectSWFFrameRate (Some path) (ProbeClose stderrData) = round v)
   \<and> ((noMarker ''fps'' stderrData \<or> (\<exists>g'. firstMarker ''fps'' stderrData g' \<and> \<not> inRange g'))
        \<and> firstMarker ''tbr'' stderrData h \<and> parseFloat h = Finite w \<and> 0 < w \<and> w \<le> 120 \<longrightarrow>
        detectSWFFrameRate (Some path) (ProbeClose stderrData) = round w)
   \<and> ((noMarker ''fps'' stderrData \<or> (\<exists>g'. firstMarker ''fps'' stderrData g' \<and> \<not> inRange g'))
        \<and> (noMarker ''tbr'' stderrData \<or> (\<exists>h'. firstMarker ''tbr'' stderrData h' \<and> \<not> inRange h')) \<longrightarrow>
        detectSWFFrameRate (Some path) (ProbeClose stderrData) = 30)
   \<and> 0 \<le> detectSWFFrameRate p ev \<and> detectSWFFrameRate p ev \<le> 120"
proof (intro conjI impI)
  show "detectSWFFrameRateTimed None signals = (30, False)"
    by (simp add: detectSWFFrameRateTimed_def)
next
  assume "inTime chunks \<and> (rest = [] \<or> 30000 \<le> fst (hd rest))"
  then have "watchProbe [] (stderrChunks chunks @ rest) = (ProbeTimeout, True)"
    by (simp add: watchProbe_chunks watchProbe_late)
  then show "detectSWFFrameRateTimed (Some path) (stderrChunks chunks @ rest) = (30, True)"
    by (simp add: detectSWFFrameRateTimed_def detectSWFFrameRate_Timeout)
next
  assume "inTime chunks \<and> t < 30000"
  then have "watchProbe [] (stderrChunks chunks @ (t, ErrorEvent message) # rest) =
      (ProbeError message, False)"
    by (simp add: watchProbe_chunks)
  then show "detectSWFFrameRateTimed (Some path) (stderrChunks chunks @ (t, ErrorEvent message) # rest) =
      (30, False)"
    by (simp add: detectSWFFrameRateTimed_def detectSWFFrameRate_Error)
next
  assume "inTime chunks \<and> t < 30000"
  then have "watchProbe [] (stderrChunks chunks @ (t, CloseEvent) # rest) =
      (ProbeClose (concat (map snd chunks)), False)"
    by (simp add: watchProbe_chunks)
  then show "detectSWFFrameRateTimed (Some path) (stderrChunks chunks @ (t, CloseEvent) # rest) =
      (detectSWFFrameRate (Some path) (ProbeClose (concat (map snd chunks))), False)"
    by (simp add: detectSWFFrameRateTimed_def)
next
  show "detectSWFFrameRate None ev = 30"
    by (simp add: detectSWFFrameRate_def)
  show "detectSWFFrameRate p ProbeTimeout = 30"
    by (rule detectSWFFrameRate_Timeout)
  show "detectSWFFrameRate p (ProbeError message) = 30"
    by (rule detectSWFFrameRate_Error)
next
  assume "firstMarker ''fps'' stderrData g \<and> parseFloat g = Finite v \<and> 0 < v \<and> v \<le> 120"
  then have "acceptRate (matchRate ''fps'' stderrData) = Some (math_round v)"
    by (simp add: fps_first [symmetric] acceptRate_Some)
  then show "detectSWFFrameRate (Some path) (ProbeClose stderrData) = round v"
    by (simp add: detectSWFFrameRate_def math_round_eq_round)
next
  assume a: "(noMarker ''fps'' stderrData \<or> (\<exists>g'. firstMarker ''fps'' stderrData g' \<and> \<not> inRange g'))
        \<and> firstMarker ''tbr'' stderrData h \<and> parseFloat h = Finite w \<and> 0 < w \<and> w \<le> 120"
  then have "acceptRate (matchRate ''fps'' stderrData) = None"
    by (intro acceptRate_None) (simp add: fps_first fps_none)
  moreover from a have "acceptRate (matchRate ''tbr'' stderrData) = Some (math_round w)"
    by (simp add: tbr_first [symmetric] acceptRate_Some)
  ultimately show "detectSWFFrameRate (Some path) (ProbeClose stderrData) = round w"
    by (simp add: detectSWFFrameRate_def math_round_eq_round)
next
  assume a: "(noMarker ''fps'' stderrData \<or> (\<exists>g'. firstMarker ''fps'' stderrData g' \<and> \<not> inRange g'))
        \<and> (noMarker ''tbr'' stderrData \<or> (\<exists>h'. firstMarker ''tbr'' stderrData h' \<and> \<not> inRange h'))"
  then have "acceptRate (matchRate ''fps'' stderrData) = None"
    by (intro acceptRate_None) (simp add: fps_first fps_none)
  moreover from a have "acceptRate (matchRate ''tbr'' stderrData) = None"
    by (intro acceptRate_None) (simp add: tbr_first tbr_none)
  ultimately show "detectSWFFrameRate (Some path) (ProbeClose stderrData) = 30"
    by (simp add: detectSWFFrameRate_def)
next
  show "0 \<le> detectSWFFrameRate p ev" and "detectSWFFrameRate p ev \<le> 120"
    by (auto simp: detectSWFFrameRate_def dest: acceptRate_bounds
        split: option.splits probe_event.splits)
qed

text \<open>
  The detector at work: a marker of 15; a frame rate of 150, which is refused, before a
  time base rate of 29.97; a text with no marker; two numerals of more digits than a double
  holds, of which \<^verbatim>\<open>120.00000000000000001\<close> is read as 120 and accepted, and
  \<^verbatim>\<open>0.49999999999999999\<close> is read as one half and rounded to 1; a process that closes
  after 90 ms, one that is still running after 30 seconds, and one that cannot be
  started.
\<close>

lemma probe_markers:
  "matchRate ''fps'' probeText = Some ''15''"
  "matchRate ''fps'' ''150 fps, 29.97 tbr'' = Some ''150''"
  "matchRate ''tbr'' ''150 fps, 29.97 tbr'' = Some ''29.97''"
  "matchRate ''fps'' ''Invalid data'' = None"
  "matchRate ''tbr'' ''Invalid data'' = None"
  "matchRate ''fps'' ''120.00000000000000001 fps, 24 tbr'' = Some ''120.00000000000000001''"
  "matchRate ''fps'' ''0.49999999999999999 fps'' = Some ''0.49999999999999999''"
  by code_simp+

lemma probe_values:
  "parseFloat ''15'' = Finite 15"
  "parseFloat ''150'' = Finite 150"
  "parseFloat ''29.97'' = Finite (1054475631502295 / 35184372088832)"
  "parseFloat ''120.00000000000000001'' = Finite 120"
  "parseFloat ''0.49999999999999999'' = Finite (1 / 2)"
  by code_simp+

lemma probe_rounded:
  "round (15 :: rat) = 15"
  "round (1054475631502295 / 35184372088832 :: rat) = 30"
  "round (120 :: rat) = 120"
  "round (1 / 2 :: rat) = 1"
  unfolding round_def by (rule floor_unique; simp)+

theorem frame_rate_witness:
  "firstMarker ''fps'' probeText ''15'' \<and> parseFloat ''15'' = Finite 15
   \<and> detectSWFFrameRate (Some ''ffmpeg'') (ProbeClose probeText) = 15
   \<and> firstMarker ''fps'' ''150 fps, 29.97 tbr'' ''150'' \<and> \<not> inRange ''150''
   \<and> firstMarker ''tbr'' ''150 fps, 29.97 tbr'' ''29.97''
   \<and> parseFloat ''29.97'' = Finite (1054475631502295 / 35184372088832)
   \<and> detectSWFFrameRate (Some ''ffmpeg'') (ProbeClose ''150 fps, 29.97 tbr'') = 30
   \<and> noMarker ''fps'' ''Invalid data'' \<and> noMarker ''tbr'' ''Invalid data''
   \<and> detectSWFFrameRate (Some ''ffmpeg'') (ProbeClose ''Invalid data'') = 30
   \<and> firstMarker ''fps'' ''120.00000000000000001 fps, 24 tbr'' ''120.00000000000000001''
   \<and> parseFloat ''120.00000000000000001'' = Finite 120
   \<and> detectSWFFrameRate (Some ''ffmpeg'') (ProbeClose ''120.00000000000000001 fps, 24 tbr'') = 120
   \<and> firstMarker ''fps'' ''0.49999999999999999 fps'' ''0.49999999999999999''
   \<and> parseFloat ''0.49999999999999999'' = Finite (1 / 2)
   \<and> detectSWFFrameRate (Some ''ffmpeg'') (ProbeClose ''0.49999999999999999 fps'') = 1
   \<and> inTime [(40, ''Stream #0:0: Video: flv1, 15 ''), (55, ''fps, 15 tbr'')]
   \<and> detectSWFFrameRateTimed (Some ''ffmpeg'')
        [(40, StderrData ''Stream #0:0: Video: flv1, 15 ''), (55, StderrData ''fps, 15 tbr''),
         (90, CloseEvent)] =
      (detectSWFFrameRate (Some ''ffmpeg'') (ProbeClose ''Stream #0:0: Video: flv1, 15 fps, 15 tbr''), False)
   \<and> detectSWFFrameRateTimed (Some ''ffmpeg'')
        [(40, StderrData ''Stream #0:0: Video: flv1, 15 ''), (55, StderrData ''fps, 15 tbr''),
         (30000, CloseEvent)] = (30, True)
   \<and> detectSWFFrameRateTimed (Some ''ffmpeg'') [] = (30, True)
   \<and> detectSWFFrameRateTimed (Some ''ffmpeg'') [(3, ErrorEvent ''spawn ffmpeg ENOENT''), (4, CloseEvent)] =
      (30, False)"
proof -
  note detection = frame_rate_detection [where path = "''ffmpeg''"]
  have m1: "firstMarker ''fps'' probeText ''15''"
    using probe_markers(1) by (simp only: fps_first)
  have m2: "firstMarker ''fps'' ''150 fps, 29.97 tbr'' ''150''" 
    "firstMarker ''tbr'' ''150 fps, 29.97 tbr'' ''29.97''"
    using probe_markers(2,3) by (simp_all only: fps_first tbr_first)
  have r2: "\<not> inRange ''150''"
    by (simp add: inRange_def probe_values)
  have m3: "noMarker ''fps'' ''Invalid data''" "noMarker ''tbr'' ''Invalid data''"
    using probe_markers(4,5) by (simp_all only: fps_none tbr_none)
  have m4: "firstMarker ''fps'' ''120.00000000000000001 fps, 24 tbr'' ''120.00000000000000001''"
    using probe_markers(6) by (simp only: fps_first)
  have m5: "firstMarker ''fps'' ''0.49999999999999999 fps'' ''0.49999999999999999''"
    using probe_markers(7) by (simp only: fps_first)
  from detection [where stderrData = probeText and g = "''15''" and v = "15"] m1 probe_values(1)
  have 1: "detectSWFFrameRate (Some ''ffmpeg'') (ProbeClose probeText) = 15"
    by (simp add: probe_rounded)
  have out: "\<exists>g'. firstMarker ''fps'' ''150 fps, 29.97 tbr'' g' \<and> \<not> inRange g'"
    using m2(1) r2 by blast
  from detection [where stderrData = "''150 fps, 29.97 tbr''" and h = "''29.97''"
      and w = "1054475631502295 / 35184372088832"] out m2(2) probe_values(3)
  have 2: "detectSWFFrameRate (Some ''ffmpeg'') (ProbeClose ''150 fps, 29.97 tbr'') = 30"
    by (simp add: probe_rounded)
  from detection [where stderrData = "''Invalid data''"] m3
  have 3: "detectSWFFrameRate (Some ''ffmpeg'') (ProbeClose ''Invalid data'') = 30"
    by simp
  from detection [where stderrData = "''120.00000000000000001 fps, 24 tbr''"
      and g = "''120.00000000000000001''" and v = "120"] m4 probe_values(4)
  have 4: "detectSWFFrameRate (Some ''ffmpeg'') (ProbeClose ''120.00000000000000001 fps, 24 tbr'') = 120"
    by (simp add: probe_rounded)
  from detection [where stderrData = "''0.49999999999999999 fps''"
      and g = "''0.49999999999999999''" and v = "1 / 2"] m5 probe_values(5)
  have 5: "detectSWFFrameRate (Some ''ffmpeg'') (ProbeClose ''0.49999999999999999 fps'') = 1"
    by (simp add: probe_rounded)
  have t: "inTime [(40, ''Stream #0:0: Video: flv1, 15 ''), (55, ''fps, 15 tbr'')]"
    by (simp add: inTime_def)
  from detection [where chunks = "[(40, ''Stream #0:0: Video: flv1, 15 ''), (55, ''fps, 15 tbr'')]"
      and t = "90" and rest = "[]"] t
  have 6: "detectSWFFrameRateTimed (Some ''ffmpeg'')
        [(40, StderrData ''Stream #0:0: Video: flv1, 15 ''), (55, StderrData ''fps, 15 tbr''),
         (90, CloseEvent)] =
      (detectSWFFrameRate (Some ''ffmpeg'') (ProbeClose ''Stream #0:0: Video: flv1, 15 fps, 15 tbr''), False)"
    by (simp add: stderrChunks_def)
  from detection [where chunks = "[(40, ''Stream #0:0: Video: flv1, 15 ''), (55, ''fps, 15 tbr'')]"
      and rest = "[(30000, CloseEvent)]"] t
  have 7: "detectSWFFrameRateTimed (Some ''ffmpeg'')
        [(40, StderrData ''Stream #0:0: Video: flv1, 15 ''), (55, StderrData ''fps, 15 tbr''),
         (30000, CloseEvent)] = (30, True)"
    by (simp add: stderrChunks_def)
  from detection [where chunks = "[]" and rest = "[]"]
  have 8: "detectSWFFrameRateTimed (Some ''ffmpeg'') [] = (30, True)"
    by (simp add: stderrChunks_def inTime_def)
  from detection [where chunks = "[]" and t = "3" and message = "''spawn ffmpeg ENOENT''"
      and rest = "[(4, CloseEvent)]"]
  have 9: "detectSWFFrameRateTimed (Some ''ffmpeg'') [(3, ErrorEvent ''spawn ffmpeg ENOENT''), (4, CloseEvent)] =
      (30, False)"
    by (simp add: stderrChunks_def inTime_def)
  from m1 probe_values(1) 1 m2(1) r2 m2(2) probe_values(3) 2 m3 3 m4 probe_values(4) 4
    m5 probe_values(5) 5 t 6 7 8 9
  show ?thesis by blast
qed

section \<open>Properties of the Assembly Driver and the Pipeline Coordinator\<close>

lemma createFramePattern_nonempty:
  "files \<noteq> [] \<Longrightarrow>
   createFramePattern files =
     Some (path_join (path_dirname (hd files)) (''%d'' @ path_extname (hd files)), length files)"
  by (cases files) (simp_all add: createFramePattern_def Let_def)

text \<open>
  C8. A manifest without frame files is rejected at once, before any command is built.
  A command that is built has the frame pattern as its first input; it has a second
  input exactly when the manifest's audio list is not empty, and that input is the first
  audio file (encoded as AAC). Without audio the command has the one input.
\<close>

theorem assembly_inputs:
  "(frameFiles content = [] \<longrightarrow>
      convertFramesToMP4 writable event content outputPath rate = (Inl NoFrameFiles, None))
   \<and> (\<forall>cmd. snd (convertFramesToMP4 writable event content outputPath rate) = Some cmd \<longrightarrow>
        frameFiles content \<noteq> []
        \<and> hd (inputs cmd) = path_join (path_dirname (hd (frameFiles content)))
                               (''%d'' @ path_extname (hd (frameFiles content)))
        \<and> (length (inputs cmd) = 2 \<longleftrightarrow> audioFiles content \<noteq> [])
        \<and> (length (inputs cmd) = 1 \<longleftrightarrow> audioFiles content = [])
        \<and> (audioFiles content \<noteq> [] \<longrightarrow>
             inputs cmd ! 1 = hd (audioFiles content) \<and> audioCodec cmd = Some ''aac'')
        \<and> (audioFiles content = [] \<longrightarrow> audioCodec cmd = None))
   \<and> (frameFiles content \<noteq> [] \<and> writable \<longrightarrow>
        (\<exists>cmd. snd (convertFramesToMP4 writable event content outputPath rate) = Some cmd))"
proof (cases "frameFiles content = []")
  case True
  then show ?thesis by (simp add: convertFramesToMP4_def)
next
  case False
  note pat = createFramePattern_nonempty [OF False]
  show ?thesis
  proof (cases writable)
    case True
    with False show ?thesis
      by (cases event; cases "audioFiles content")
        (auto simp: convertFramesToMP4_def pat Let_def hd_conv_nth)
  next
    case no: False
    with False show ?thesis
      by (simp add: convertFramesToMP4_def pat)
  qed
qed

lemma command_framerate:
  "snd (convertFramesToMP4 writable event content outputPath rate) = Some cmd \<Longrightarrow>
   inputFramerate cmd = rate"
  by (auto simp: convertFramesToMP4_def Let_def
      split: if_splits option.splits prod.splits ffmpeg_event.splits)

text \<open>
  C7. The frame rate of the assembly command is the caller's value when that differs from
  30, and the detected rate when the caller's value is 30.
\<close>

theorem effective_frame_rate:
  assumes "assembly (convertSWF lc env swfFile outputMP4 options) = Some cmd"
  shows "(framerate options \<noteq> Num 30 \<longrightarrow> inputFramerate cmd = framerate options)
       \<and> (framerate options = Num 30 \<longrightarrow>
            inputFramerate cmd =
              Num (of_int (detectSWFFrameRate (ffmpegPath env) (probeEvent env))))"
proof -
  let ?rate = "if framerate options \<noteq> Num 30 then framerate options
               else Num (of_int (detectSWFFrameRate (ffmpegPath env) (probeEvent env)))"
  from assms obtain content w e where
    "snd (convertFramesToMP4 w e content outputMP4 ?rate) = Some cmd"
    by (auto simp: convertSWF_def Let_def
        split: option.splits sum.splits if_splits prod.splits) (metis snd_conv)+
  then have "inputFramerate cmd = ?rate"
    by (rule command_framerate)
  then show ?thesis by simp
qed

lemma sample_pattern:
  "createFramePattern [''videos/.temp-a/frames/1.png'', ''videos/.temp-a/frames/2.png''] =
     Some (''videos/.temp-a/frames/%d.png'', 2)"
  by code_simp

lemma sample_assembly:
  "convertFramesToMP4 True End sampleManifest ''videos/a.mp4'' rate = (Inr (), Some (sampleCommand rate))"
  by (simp add: convertFramesToMP4_def sampleManifest_def sampleCommand_def sample_pattern)

lemma temp_dir:
  "path_join (path_dirname ''videos/a.mp4'') (''.temp-'' @ path_basename_ext ''clips/a.swf'' ''.swf'') =
     ''videos/.temp-a''"
  by code_simp

lemma temp_analysis:
  "fst (analyzeExtractedContent codeUnitCompare ''videos/.temp-a'' tempTree) = Inr sampleManifest"
  unfolding sampleManifest_def by code_simp

lemma temp_frames: "framesOnDisk tempTree ''videos/.temp-a''"
  by code_simp

lemma probe_rate: "detectSWFFrameRate (Some ''ffmpeg'') (ProbeClose probeText) = 15"
  by code_simp

lemma temp_extraction:
  "thrown (extractSWF (extraction conversionEnv) ''clips/a.swf'' ''videos/.temp-a'' None) = None"
proof -
  obtain ms mins where r: "resolveTimeout None (swfStat (extraction conversionEnv)) = Inr (ms, mins)"
    by (cases "None :: jsnumber option" "swfStat (extraction conversionEnv)" rule: resolveTimeout_cases)
      (auto simp: conversionEnv_def)
  have "\<not> timedOut (extraction conversionEnv) ''clips/a.swf''"
    by (simp add: conversionEnv_def timedOut_def runCallbacks_def extractSWFContent_def
        isProgress_def)
  from extractSWF_completed [OF r this] show ?thesis
    using temp_frames by (simp add: conversionEnv_def)
qed

lemma conversion_run:
  "convertSWF codeUnitCompare conversionEnv ''clips/a.swf'' ''videos/a.mp4''
     \<lparr>framerate = r, keepExtracted = k\<rparr> =
   \<lparr>failure = None,
    assembly = Some (sampleCommand (if r \<noteq> Num 30 then r else Num 15)),
    cleanedUp = (\<not> k)\<rparr>"
proof -
  have env: "ffmpegPath conversionEnv = Some ''ffmpeg''" "probeEvent conversionEnv = ProbeClose probeText"
    "treeAfter (extraction conversionEnv) = tempTree" "outputWritable conversionEnv"
    "assemblyEvent conversionEnv = End"
    by (simp_all add: conversionEnv_def)
  have count: "frameCount sampleManifest = 2" by (simp add: sampleManifest_def)
  have ex: "tempTree ''videos/.temp-a'' \<noteq> None" by (simp add: tempTree_def)
  show ?thesis
    unfolding convertSWF_def temp_dir Let_def
    by (simp add: env probe_rate temp_extraction temp_analysis count sample_assembly ex)
qed

theorem effective_frame_rate_witness:
  "assembly (convertSWF codeUnitCompare conversionEnv ''clips/a.swf'' ''videos/a.mp4''
             \<lparr>framerate = Num 30, keepExtracted = False\<rparr>) = Some (sampleCommand (Num 15))
   \<and> detectSWFFrameRate (ffmpegPath conversionEnv) (probeEvent conversionEnv) = 15
   \<and> inputFramerate (sampleCommand (Num 15)) = Num 15
   \<and> assembly (convertSWF codeUnitCompare conversionEnv ''clips/a.swf'' ''videos/a.mp4''
             \<lparr>framerate = Num 24, keepExtracted = False\<rparr>) = Some (sampleCommand (Num 24))
   \<and> Num 24 \<noteq> Num 30
   \<and> inputFramerate (sampleCommand (Num 24)) = Num 24"
proof -
  have r30: "assembly (convertSWF codeUnitCompare conversionEnv ''clips/a.swf'' ''videos/a.mp4''
             \<lparr>framerate = Num 30, keepExtracted = False\<rparr>) = Some (sampleCommand (Num 15))"
    by (simp add: conversion_run)
  have r24: "assembly (convertSWF codeUnitCompare conversionEnv ''clips/a.swf'' ''videos/a.mp4''
             \<lparr>framerate = Num 24, keepExtracted = False\<rparr>) = Some (sampleCommand (Num 24))"
    by (simp add: conversion_run)
  have d: "detectSWFFrameRate (ffmpegPath conversionEnv) (probeEvent conversionEnv) = 15"
    by (simp add: conversionEnv_def probe_rate)
  from effective_frame_rate [OF r30] d
  have 1: "inputFramerate (sampleCommand (Num 15)) = Num 15" by simp
  from effective_frame_rate [OF r24]
  have 2: "inputFramerate (sampleCommand (Num 24)) = Num 24" by simp
  from r30 d 1 r24 2 show ?thesis by simp
qed


theorem assembly_inputs_witness:
  "convertFramesToMP4 True End (sampleManifest\<lparr>frameFiles := [], frameCount := 0\<rparr>)
     ''videos/a.mp4'' (Num 15) = (Inl NoFrameFiles, None)
   \<and> snd (convertFramesToMP4 True End sampleManifest ''videos/a.mp4'' (Num 15)) =
       Some (sampleCommand (Num 15))
   \<and> audioFiles sampleManifest = [''videos/.temp-a/sounds/0.mp3'']
   \<and> length (inputs (sampleCommand (Num 15))) = 2
   \<and> inputs (sampleCommand (Num 15)) ! 1 = ''videos/.temp-a/sounds/0.mp3''
   \<and> (\<exists>cmd. snd (convertFramesToMP4 True End (sampleManifest\<lparr>audioFiles := []\<rparr>)
                   ''videos/a.mp4'' (Num 15)) = Some cmd
            \<and> length (inputs cmd) = 1 \<and> audioCodec cmd = None)"
proof -
  have e: "frameFiles (sampleManifest\<lparr>frameFiles := [], frameCount := 0\<rparr>) = []"
    by simp
  from assembly_inputs [of "sampleManifest\<lparr>frameFiles := [], frameCount := 0\<rparr>" True End
      "''videos/a.mp4''" "Num 15"] e
  have 1: "convertFramesToMP4 True End (sampleManifest\<lparr>frameFiles := [], frameCount := 0\<rparr>)
     ''videos/a.mp4'' (Num 15) = (Inl NoFrameFiles, None)"
    by blast
  have run: "snd (convertFramesToMP4 True End sampleManifest ''videos/a.mp4'' (Num 15)) =
       Some (sampleCommand (Num 15))"
    by (simp add: sample_assembly)
  have a: "audioFiles sampleManifest = [''videos/.temp-a/sounds/0.mp3'']"
    by (simp add: sampleManifest_def)
  from assembly_inputs [of sampleManifest True End "''videos/a.mp4''" "Num 15"] run a
  have 2: "length (inputs (sampleCommand (Num 15))) = 2"
    and 3: "inputs (sampleCommand (Num 15)) ! 1 = ''videos/.temp-a/sounds/0.mp3''"
    by auto
  have f: "frameFiles (sampleManifest\<lparr>audioFiles := []\<rparr>) \<noteq> []"
    and s: "audioFiles (sampleManifest\<lparr>audioFiles := []\<rparr>) = []"
    by (simp_all add: sampleManifest_def)
  from assembly_inputs [of "sampleManifest\<lparr>audioFiles := []\<rparr>" True End "''videos/a.mp4''" "Num 15"]
  have 4: "\<exists>cmd. snd (convertFramesToMP4 True End (sampleManifest\<lparr>audioFiles := []\<rparr>)
                   ''videos/a.mp4'' (Num 15)) = Some cmd
            \<and> length (inputs cmd) = 1 \<and> audioCodec cmd = None"
    using f s by (metis (no_types, lifting))
  from 1 run a 2 3 4 show ?thesis by blast
qed

end
